theory Spec2Isabelle
  imports Main
begin

section \<open>The asynchronous logger of package logger\<close>

text \<open>
  A shallow embedding of the Go package \<^verbatim>\<open>logger\<close>: the colour constants and the
  highlight table, the \<^verbatim>\<open>Logger\<close> struct, the worker loop \<^verbatim>\<open>run\<close>, the enqueue
  methods and \<^verbatim>\<open>Close\<close>. Strings are byte lists, as Go's are. What the package takes
  from Go itself (a buffered channel, \<^verbatim>\<open>fmt\<close>'s formatting of a format string,
  \<^verbatim>\<open>strings.ReplaceAll\<close>, \<^verbatim>\<open>log.Logger\<close>) is modelled next to the place that uses it.
\<close>

subsection \<open>ANSI colours and the highlight table\<close>

type_synonym Color = string

definition Reset :: Color where "Reset = CHR 0x1B # ''[0m''"
definition Red :: Color where "Red = CHR 0x1B # ''[31m''"
definition Green :: Color where "Green = CHR 0x1B # ''[32m''"
definition Yellow :: Color where "Yellow = CHR 0x1B # ''[33m''"
definition Blue :: Color where "Blue = CHR 0x1B # ''[34m''"
definition Purple :: Color where "Purple = CHR 0x1B # ''[35m''"
definition Magenta :: Color where "Magenta = CHR 0x1B # ''[35m''"
definition Grey :: Color where "Grey = CHR 0x1B # ''[90m''"
definition Cyan :: Color where "Cyan = CHR 0x1B # ''[36m''"

lemmas color_defs =
  Reset_def Red_def Green_def Yellow_def Blue_def Purple_def Magenta_def Grey_def Cyan_def

text \<open>
  \<^verbatim>\<open>highlights\<close> is a Go map literal. Its entries are listed here in the order of the
  source; Go visits the entries of a map in an order it does not specify, so every
  function that ranges over the table takes the order of the visit as an argument.
\<close>

definition highlights :: "(string \<times> Color) list" where
  "highlights =
     [(''OK'', Green), (''ERROR'', Red), (''FAIL'', Red),
      (''GET'', Blue), (''POST'', Cyan), (''PUT'', Yellow), (''DELETE'', Purple),
      (''PATCH'', Magenta), (''OPTIONS'', Cyan), (''HEAD'', Blue)]"

text \<open>An order in which \<^verbatim>\<open>range highlights\<close> may visit the table: every entry once.\<close>

definition range_order :: "(string \<times> Color) list \<Rightarrow> bool" where
  "range_order ord \<longleftrightarrow> distinct ord \<and> set ord = set highlights"

subsection \<open>fmt.Sprintf with the formats of the package\<close>

text \<open>
  Every format the package writes itself has plain \<^verbatim>\<open>%s\<close> directives only, each with
  its operand, a string (a \<^verbatim>\<open>Color\<close> is a string type), which \<^verbatim>\<open>fmt\<close> copies as it
  is. \<open>Sprintf\<close> is \<^verbatim>\<open>fmt.Sprintf\<close> for such a format and its operands; other directives
  are not interpreted, since no format of the package has one.
\<close>

fun Sprintf :: "string \<Rightarrow> string list \<Rightarrow> string" where
  "Sprintf (c # d # f) (v # vs) =
     (if c = CHR ''%'' \<and> d = CHR ''s'' then v @ Sprintf f vs
      else c # Sprintf (d # f) (v # vs))"
| "Sprintf (c # f) vs = c # Sprintf f vs"
| "Sprintf [] vs = []"

subsection \<open>strings.ReplaceAll and colorString\<close>

text \<open>
  \<^verbatim>\<open>strings.ReplaceAll(s, old, new)\<close> replaces the non-overlapping occurrences of
  \<^verbatim>\<open>old\<close>, found from left to right. For an empty \<^verbatim>\<open>old\<close> Go inserts \<^verbatim>\<open>new\<close> before
  every UTF-8 sequence and at the end; the model inserts it before every byte, which is
  the same on ASCII text. No key of \<^verbatim>\<open>highlights\<close> is empty.
\<close>

function ReplaceAll :: "string \<Rightarrow> string \<Rightarrow> string \<Rightarrow> string" where
  "ReplaceAll s old new =
     (if s = [] then (if old = [] then new else [])
      else if old = [] then new @ hd s # ReplaceAll (tl s) old new
      else if take (length old) s = old then new @ ReplaceAll (drop (length old) s) old new
      else hd s # ReplaceAll (tl s) old new)"
  by pat_completeness auto
termination
  by (relation "measure (\<lambda>(s, old, new). length s)") auto

declare ReplaceAll.simps [simp del]

text \<open>
  \<^verbatim>\<open>colorString\<close>: one \<^verbatim>\<open>ReplaceAll\<close> per entry of the table, each on the result of
  the one before, in the order \<open>ord\<close> of the visit.
\<close>

definition colorString :: "(string \<times> Color) list \<Rightarrow> string \<Rightarrow> string" where
  "colorString ord s =
     fold (\<lambda>(word, color) s. ReplaceAll s word (Sprintf ''%s%s%s'' [color, word, Reset])) ord s"

subsection \<open>fmt: a format string with no operands\<close>

text \<open>
  \<^verbatim>\<open>run\<close> hands the text it has built with \<^verbatim>\<open>fmt.Sprintf\<close> to \<^verbatim>\<open>lg.l.Printf\<close> as its
  first argument, that is, as a format string with no operands. \<open>Printf0\<close> is what
  \<^verbatim>\<open>fmt\<close> makes of such a format (Go's \<^verbatim>\<open>doPrintf\<close> with an empty operand list): text is
  copied up to a \<^verbatim>\<open>%\<close>; then come the flags, an argument index \<^verbatim>\<open>[n]\<close>, a width, a
  precision and the verb. \<^verbatim>\<open>%%\<close> prints a percent sign, a format that ends before the
  verb prints \<^verbatim>\<open>%!(NOVERB)\<close> and stops, and every other verb finds no operand and prints
  \<^verbatim>\<open>%!v(MISSING)\<close> (or \<^verbatim>\<open>%!v(BADINDEX)\<close> after an argument index).
  The functions work on the rest of the format, where Go keeps an index into it.
\<close>

definition byte :: "char \<Rightarrow> nat" where
  "byte c = of_char c"

definition isDigit :: "char \<Rightarrow> bool" where
  "isDigit c \<longleftrightarrow> 48 \<le> byte c \<and> byte c \<le> 57"

definition tooLarge :: "nat \<Rightarrow> bool" where
  "tooLarge x \<longleftrightarrow> x > 1000000"

text \<open>
  \<^verbatim>\<open>parsenum\<close>: the digits at the front of the format. A number that has grown past
  \<^verbatim>\<open>1e6\<close> before a further digit makes Go give up and skip to the end of the format.
\<close>

fun parsenum :: "nat \<Rightarrow> bool \<Rightarrow> string \<Rightarrow> nat \<times> bool \<times> string" where
  "parsenum num isnum [] = (num, isnum, [])"
| "parsenum num isnum (c # cs) =
     (if isDigit c
      then (if tooLarge num then (0, False, []) else parsenum (num * 10 + (byte c - 48)) True cs)
      else (num, isnum, c # cs))"

text \<open>
  \<^verbatim>\<open>parseArgNumber\<close> reads \<^verbatim>\<open>[n]\<close>: the width of the bracket and whether a number
  stands in it. \<^verbatim>\<open>argNumber\<close> gives the format after the bracket, whether an index was
  found, and whether \<^verbatim>\<open>goodArgNum\<close> is still true: with no operand every index is out
  of range.
\<close>

definition parseArgNumber :: "string \<Rightarrow> nat \<times> bool" where
  "parseArgNumber f =
     (if length f < 3 then (1, False)
      else (let inner = takeWhile (\<lambda>c. c \<noteq> CHR '']'') (tl f) in
            if length inner = length (tl f) then (1, False)
            else (case parsenum 0 False inner of
                    (n, isnum, rest) \<Rightarrow> (length inner + 2, isnum \<and> rest = []))))"

definition argNumber :: "string \<Rightarrow> string \<times> bool \<times> bool" where
  "argNumber f =
     (if f = [] \<or> hd f \<noteq> CHR ''['' then (f, False, True)
      else (case parseArgNumber f of (wid, ok) \<Rightarrow> (drop wid f, ok, False)))"

definition isFlag :: "char \<Rightarrow> bool" where
  "isFlag c \<longleftrightarrow> c \<in> set ''#0+- ''"

text \<open>
  The verb is one rune. \<^verbatim>\<open>utf8.DecodeRuneInString\<close> gives the rune and its width; an
  invalid encoding is the rune U+FFFD of width 1. The rune is printed in UTF-8, which
  for a valid encoding is the bytes that were read.
\<close>

definition RuneError :: string where
  "RuneError = [CHR 0xEF, CHR 0xBF, CHR 0xBD]"

definition between :: "nat \<Rightarrow> nat \<Rightarrow> char \<Rightarrow> bool" where
  "between lo hi c \<longleftrightarrow> lo \<le> byte c \<and> byte c \<le> hi"

fun DecodeRune :: "string \<Rightarrow> string \<times> nat" where
  "DecodeRune [] = (RuneError, 0)"
| "DecodeRune (c # cs) =
     (let b = byte c in
      if b < 0x80 then ([c], 1)
      else if 0xC2 \<le> b \<and> b \<le> 0xDF then
        (case cs of
           c1 # _ \<Rightarrow> if between 0x80 0xBF c1 then ([c, c1], 2) else (RuneError, 1)
         | _ \<Rightarrow> (RuneError, 1))
      else if 0xE0 \<le> b \<and> b \<le> 0xEF then
        (case cs of
           c1 # c2 # _ \<Rightarrow>
             if between (if b = 0xE0 then 0xA0 else 0x80) (if b = 0xED then 0x9F else 0xBF) c1
                \<and> between 0x80 0xBF c2
             then ([c, c1, c2], 3) else (RuneError, 1)
         | _ \<Rightarrow> (RuneError, 1))
      else if 0xF0 \<le> b \<and> b \<le> 0xF4 then
        (case cs of
           c1 # c2 # c3 # _ \<Rightarrow>
             if between (if b = 0xF0 then 0x90 else 0x80) (if b = 0xF4 then 0x8F else 0xBF) c1
                \<and> between 0x80 0xBF c2 \<and> between 0x80 0xBF c3
             then ([c, c1, c2, c3], 4) else (RuneError, 1)
         | _ \<Rightarrow> (RuneError, 1))
      else (RuneError, 1))"

text \<open>
  The width, the precision and the verb of one directive. Each gives its output, the
  format that is left, \<^verbatim>\<open>afterIndex\<close> and \<^verbatim>\<open>goodArgNum\<close>. A \<^verbatim>\<open>*\<close> asks for an operand
  that is not there. A dot starts a precision only when the format goes on after it
  (\<^verbatim>\<open>i+1 < end\<close>); a dot that ends the format is the verb.
\<close>

definition width_part :: "string \<Rightarrow> bool \<Rightarrow> bool \<Rightarrow> string \<times> string \<times> bool \<times> bool" where
  "width_part f afterIndex good =
     (if f \<noteq> [] \<and> hd f = CHR ''*'' then (''%!(BADWIDTH)'', tl f, False, good)
      else (case parsenum 0 False f of
              (n, widPresent, r) \<Rightarrow> ([], r, afterIndex, good \<and> \<not> (afterIndex \<and> widPresent))))"

definition prec_part :: "string \<Rightarrow> bool \<Rightarrow> bool \<Rightarrow> string \<times> string \<times> bool \<times> bool" where
  "prec_part f afterIndex good =
     (if f \<noteq> [] \<and> hd f = CHR ''.'' \<and> tl f \<noteq> [] then
        (case argNumber (tl f) of
           (g, found, plain) \<Rightarrow>
             if g \<noteq> [] \<and> hd g = CHR ''*''
             then (''%!(BADPREC)'', tl g, False, good \<and> \<not> afterIndex \<and> plain)
             else (case parsenum 0 False g of
                     (n, precPresent, r) \<Rightarrow> ([], r, found, good \<and> \<not> afterIndex \<and> plain)))
      else ([], f, afterIndex, good))"

definition verb_part :: "string \<Rightarrow> bool \<Rightarrow> string \<times> string" where
  "verb_part f good =
     (if f = [] then (''%!(NOVERB)'', [])
      else (case DecodeRune f of
              (verb, wid) \<Rightarrow>
                (if verb = ''%'' then ''%''
                 else if \<not> good then ''%!'' @ verb @ ''(BADINDEX)''
                 else ''%!'' @ verb @ ''(MISSING)'',
                 drop wid f)))"

definition directive :: "string \<Rightarrow> string \<times> string" where
  "directive f0 =
     (case argNumber (dropWhile isFlag f0) of
        (f1, afterIndex1, good1) \<Rightarrow>
     (case width_part f1 afterIndex1 good1 of
        (out2, f2, afterIndex2, good2) \<Rightarrow>
     (case prec_part f2 afterIndex2 good2 of
        (out3, f3, afterIndex3, good3) \<Rightarrow>
     (case (if afterIndex3 then (f3, afterIndex3, good3)
            else (case argNumber f3 of (g, found, plain) \<Rightarrow> (g, found, good3 \<and> plain))) of
        (f4, afterIndex4, good4) \<Rightarrow>
     (case verb_part f4 good4 of
        (out5, f5) \<Rightarrow> (out2 @ out3 @ out5, f5))))))"

lemma parsenum_length: "length (snd (snd (parsenum n b f))) \<le> length f"
  by (induction f arbitrary: n b) (auto intro: le_SucI)

lemma argNumber_length: "length (fst (argNumber f)) \<le> length f"
  by (auto simp: argNumber_def split: prod.splits)

lemma width_part_length: "length (fst (snd (width_part f a g))) \<le> length f"
  using parsenum_length [of 0 False f]
  by (auto simp: width_part_def split: prod.splits)

lemma prec_part_length: "length (fst (snd (prec_part f a g))) \<le> length f"
proof (cases "f \<noteq> [] \<and> hd f = CHR ''.'' \<and> tl f \<noteq> []")
  case False
  then show ?thesis by (auto simp: prec_part_def)
next
  case True
  obtain g found plain where an: "argNumber (tl f) = (g, found, plain)"
    by (cases "argNumber (tl f)") auto
  have g: "length g \<le> length (tl f)" using argNumber_length [of "tl f"] an by simp
  have p: "length (snd (snd (parsenum 0 False g))) \<le> length g" by (rule parsenum_length)
  show ?thesis using True an g p
    by (auto simp: prec_part_def split: prod.splits)
qed

lemma verb_part_length: "length (snd (verb_part f g)) \<le> length f"
  by (auto simp: verb_part_def split: prod.splits)

lemma directive_length: "length (snd (directive f)) \<le> length f"
proof -
  obtain f1 a1 g1 where s1: "argNumber (dropWhile isFlag f) = (f1, a1, g1)"
    by (cases "argNumber (dropWhile isFlag f)") auto
  obtain o2 f2 a2 g2 where s2: "width_part f1 a1 g1 = (o2, f2, a2, g2)"
    by (cases "width_part f1 a1 g1") auto
  obtain o3 f3 a3 g3 where s3: "prec_part f2 a2 g2 = (o3, f3, a3, g3)"
    by (cases "prec_part f2 a2 g2") auto
  obtain f4 a4 g4 where s4: "(if a3 then (f3, a3, g3)
            else (case argNumber f3 of (g, found, plain) \<Rightarrow> (g, found, g3 \<and> plain))) = (f4, a4, g4)"
    by (cases "(if a3 then (f3, a3, g3)
            else (case argNumber f3 of (g, found, plain) \<Rightarrow> (g, found, g3 \<and> plain)))") auto
  have l0: "length (dropWhile isFlag f) \<le> length f" by (rule length_dropWhile_le)
  have l1: "length f1 \<le> length (dropWhile isFlag f)"
    using argNumber_length [of "dropWhile isFlag f"] s1 by simp
  have l2: "length f2 \<le> length f1" using width_part_length [of f1 a1 g1] s2 by simp
  have l3: "length f3 \<le> length f2" using prec_part_length [of f2 a2 g2] s3 by simp
  have l4: "length f4 \<le> length f3"
    using s4 argNumber_length [of f3] by (auto split: if_splits prod.splits)
  have l5: "length (snd (verb_part f4 g4)) \<le> length f4" by (rule verb_part_length)
  have "snd (directive f) = snd (verb_part f4 g4)"
    by (simp add: directive_def s1 s2 s3 s4 split: prod.splits)
  then show ?thesis using l0 l1 l2 l3 l4 l5 by simp
qed

text \<open>\<^verbatim>\<open>Printf0\<close> terminates: a directive never gives back more format than it got.\<close>

function Printf0 :: "string \<Rightarrow> string" where
  "Printf0 [] = []"
| "Printf0 (c # cs) =
     (if c \<noteq> CHR ''%'' then c # Printf0 cs
      else (case directive cs of (out, rest) \<Rightarrow> out @ Printf0 rest))"
  by pat_completeness auto
termination
  apply (relation "measure length")
    apply simp_all
  using directive_length apply (metis le_imp_less_Suc snd_conv)
  done


subsection \<open>Log levels and messages\<close>

text \<open>\<^verbatim>\<open>type LogLevel int\<close>: any integer is a value of the type; six of them are named.\<close>

type_synonym LogLevel = int

definition LevelDebug :: LogLevel where "LevelDebug = 0"
definition LevelInfo :: LogLevel where "LevelInfo = 1"
definition LevelWarn :: LogLevel where "LevelWarn = 2"
definition LevelError :: LogLevel where "LevelError = 3"
definition LevelFatal :: LogLevel where "LevelFatal = 4"
definition LevelPrint :: LogLevel where "LevelPrint = 5"

lemmas level_defs =
  LevelDebug_def LevelInfo_def LevelWarn_def LevelError_def LevelFatal_def LevelPrint_def

definition levels :: "LogLevel set" where
  "levels = {LevelDebug, LevelInfo, LevelWarn, LevelError, LevelFatal, LevelPrint}"

record logMessage =
  level :: LogLevel
  msg :: string

subsection \<open>log.Logger and the sink\<close>

text \<open>
  The sink is the \<^verbatim>\<open>io.MultiWriter\<close> the \<^verbatim>\<open>log.Logger\<close> writes to. \<^verbatim>\<open>log.Logger\<close> makes
  one \<^verbatim>\<open>Write\<close> per call: the prefix, the date and time when the flags ask for them,
  the text, and a newline when the text does not end in one. A write is recorded with
  the writers it goes to, the prefix, whether it is stamped (the date and time are the
  clock's and are not modelled) and the text. The package stores only the flags
  \<^verbatim>\<open>0\<close> and \<^verbatim>\<open>log.LstdFlags\<close>.
\<close>

datatype writer = Stdout | Writer nat

record log_Logger =
  l_out :: "writer list"
  l_prefix :: string
  l_flags :: int

definition LstdFlags :: int where
  "LstdFlags = 3"

record written =
  w_to :: "writer list"
  w_prefix :: string
  w_stamp :: bool
  w_text :: string

definition Output :: "log_Logger \<Rightarrow> string \<Rightarrow> written" where
  "Output L s =
     \<lparr> w_to = l_out L, w_prefix = l_prefix L, w_stamp = (l_flags L \<noteq> 0),
       w_text = (if s = [] \<or> last s \<noteq> CHR 0x0A then s @ [CHR 0x0A] else s) \<rparr>"

subsection \<open>Channels\<close>

text \<open>
  A Go channel made with \<^verbatim>\<open>make(chan T, n)\<close>: the values sent and not yet received, in
  the order of the sends, the capacity, and whether the channel is closed. A send on
  a closed channel panics, a send on a full channel blocks; a receive takes the oldest
  value, and on an empty channel it blocks unless the channel is closed; closing a
  closed channel panics.
\<close>

record 'a chan =
  buf :: "'a list"
  cap :: nat
  chan_closed :: bool

definition make_chan :: "nat \<Rightarrow> 'a chan" where
  "make_chan n = \<lparr> buf = [], cap = n, chan_closed = False \<rparr>"

datatype 'a sent = Sent "'a chan" | SendBlocks | SendPanics

definition chan_send :: "'a chan \<Rightarrow> 'a \<Rightarrow> 'a sent" where
  "chan_send c x =
     (if chan_closed c then SendPanics
      else if length (buf c) < cap c then Sent (c\<lparr>buf := buf c @ [x]\<rparr>)
      else SendBlocks)"

datatype 'a received = Received 'a "'a chan" | RecvClosed | RecvBlocks

definition chan_recv :: "'a chan \<Rightarrow> 'a received" where
  "chan_recv c =
     (case buf c of
        x # xs \<Rightarrow> Received x (c\<lparr>buf := xs\<rparr>)
      | [] \<Rightarrow> if chan_closed c then RecvClosed else RecvBlocks)"

definition chan_close :: "'a chan \<Rightarrow> 'a chan option" where
  "chan_close c = (if chan_closed c then None else Some (c\<lparr>chan_closed := True\<rparr>))"

subsection \<open>The Logger and the process it runs in\<close>

text \<open>
  The fields of the struct \<^verbatim>\<open>Logger\<close> (\<open>done_ch\<close> is the field \<^verbatim>\<open>done\<close>). Around it
  stands what the methods act on besides the struct: the writes the sink has received,
  the goroutine started by \<^verbatim>\<open>go lg.run()\<close>, the number of \<^verbatim>\<open>range highlights\<close> loops
  run so far (the \<open>k\<close>-th of them visits the table in the order \<open>mo k\<close>, which the
  functions take as an argument), and whether the process is alive.
\<close>

record Logger =
  l :: log_Logger
  logCh :: "logMessage chan"
  done_ch :: "unit chan"
  closed :: bool
  printTime :: bool
  maxLogLevel :: LogLevel
  color :: Color
  module :: string

datatype process = Alive | Exited int | Panicked

datatype goroutine = Active | Finished

record world =
  lg :: Logger
  sink :: "written list"
  worker :: goroutine
  nranges :: nat
  proc :: process

definition New :: "string \<Rightarrow> Color \<Rightarrow> writer list \<Rightarrow> world" where
  "New modname col writers =
     (let out = (if length writers > 0 then writers else [Stdout]);
          prefix = Sprintf ''%s[%s]%s '' [col, modname, Grey]
      in \<lparr> lg = \<lparr> l = \<lparr> l_out = out, l_prefix = prefix, l_flags = LstdFlags \<rparr>,
                  logCh = make_chan 100, done_ch = make_chan 0, closed = False,
                  printTime = True, maxLogLevel = LevelInfo,
                  color = col, module = modname \<rparr>,
           sink = [], worker = Active, nranges = 0, proc = Alive \<rparr>)"

definition SetLevel :: "LogLevel \<Rightarrow> world \<Rightarrow> world" where
  "SetLevel lv w = w\<lparr>lg := (lg w)\<lparr>maxLogLevel := lv\<rparr>\<rparr>"

definition SetPrintTime :: "bool \<Rightarrow> world \<Rightarrow> world" where
  "SetPrintTime p w =
     (let g = (lg w)\<lparr>printTime := p\<rparr> in
      if \<not> p then w\<lparr>lg := g\<lparr>l := (l g)\<lparr>l_flags := 0\<rparr>\<rparr>\<rparr>
      else w\<lparr>lg := g\<lparr>l := (l g)\<lparr>l_prefix := Sprintf ''%s[%s]%s '' [color g, module g, Grey],
                                  l_flags := LstdFlags\<rparr>\<rparr>\<rparr>)"

subsection \<open>The worker loop\<close>

text \<open>
  \<^verbatim>\<open>lg.l.Printf(format, v...)\<close> writes \<^verbatim>\<open>fmt.Sprintf(format, v...)\<close> through the
  \<^verbatim>\<open>log.Logger\<close>; \<open>l_Printf s\<close> is that write for the formatted text \<open>s\<close>.
  \<^verbatim>\<open>os.Exit\<close> ends the process.
\<close>

definition l_Printf :: "string \<Rightarrow> world \<Rightarrow> world" where
  "l_Printf s w = w\<lparr>sink := sink w @ [Output (l (lg w)) s]\<rparr>"

definition os_Exit :: "int \<Rightarrow> world \<Rightarrow> world" where
  "os_Exit code w = w\<lparr>proc := Exited code\<rparr>"

text \<open>
  The body of the loop of \<^verbatim>\<open>run\<close>, for one message \<open>m\<close> received from \<^verbatim>\<open>lg.logCh\<close>:
  the filter, then the \<^verbatim>\<open>switch\<close> with its cases in the order of the source. The first
  five cases pass the text built by \<^verbatim>\<open>fmt.Sprintf\<close> to \<^verbatim>\<open>Printf\<close> as the format; the
  last two pass the format \<^verbatim>\<open>"%s%s"\<close> and the text as an operand.
\<close>

definition handle :: "(nat \<Rightarrow> (string \<times> Color) list) \<Rightarrow> world \<Rightarrow> logMessage \<Rightarrow> world" where
  "handle mo w m =
     (if level m < maxLogLevel (lg w) then w
      else if level m = LevelInfo then
        l_Printf (Printf0 (Sprintf ''%s[INFO]%s %s'' [Blue, Reset, msg m])) w
      else if level m = LevelWarn then
        l_Printf (Printf0 (Sprintf ''%s[WARN]%s %s'' [Yellow, Reset, msg m])) w
      else if level m = LevelError then
        l_Printf (Printf0 (Sprintf ''%s[ERROR]%s %s'' [Red, Reset, msg m])) w
      else if level m = LevelDebug then
        l_Printf (Printf0 (Sprintf ''%s[DEBUG]%s %s'' [Grey, Reset, msg m])) w
      else if level m = LevelFatal then
        os_Exit 1 (l_Printf (Printf0 (Sprintf ''%s[FATAL]%s %s'' [Red, Reset, msg m])) w)
      else if level m = LevelPrint then
        l_Printf (Sprintf ''%s%s'' [Reset, colorString (mo (nranges w)) (msg m)])
          (w\<lparr>nranges := Suc (nranges w)\<rparr>)
      else l_Printf (Sprintf ''%s%s'' [Reset, msg m]) w)"

text \<open>
  One turn of \<^verbatim>\<open>for m := range lg.logCh\<close>: the worker receives the oldest message and
  handles it; on the closed and empty channel it leaves the loop and closes \<^verbatim>\<open>lg.done\<close>.
  There is no step when the channel is empty and open (the worker waits), when the
  worker has returned, or when the process has ended.
\<close>

definition worker_step :: "(nat \<Rightarrow> (string \<times> Color) list) \<Rightarrow> world \<Rightarrow> world option" where
  "worker_step mo w =
     (if proc w \<noteq> Alive \<or> worker w \<noteq> Active then None
      else (case chan_recv (logCh (lg w)) of
              Received m c \<Rightarrow> Some (handle mo (w\<lparr>lg := (lg w)\<lparr>logCh := c\<rparr>\<rparr>) m)
            | RecvBlocks \<Rightarrow> None
            | RecvClosed \<Rightarrow>
                (case chan_close (done_ch (lg w)) of
                   None \<Rightarrow> Some (w\<lparr>proc := Panicked\<rparr>)
                 | Some d \<Rightarrow> Some (w\<lparr>lg := (lg w)\<lparr>done_ch := d\<rparr>, worker := Finished\<rparr>))))"

lemma handle_lg [simp]: "lg (handle mo w m) = lg w"
  by (simp add: handle_def l_Printf_def os_Exit_def)

lemma handle_worker [simp]: "worker (handle mo w m) = worker w"
  by (simp add: handle_def l_Printf_def os_Exit_def)

lemma worker_step_less:
  assumes "worker_step mo w = Some w'"
  shows "length (buf (logCh (lg w'))) + (if proc w' = Alive \<and> worker w' = Active then 1 else 0)
       < length (buf (logCh (lg w))) + (if proc w = Alive \<and> worker w = Active then 1 else (0::nat))"
  using assms
  by (auto simp: worker_step_def chan_recv_def chan_close_def
           split: if_splits list.splits option.splits)

text \<open>
  \<^verbatim>\<open>run\<close>: the worker takes its turns for as long as it has one. It ends waiting on
  the empty channel, or returned with \<^verbatim>\<open>lg.done\<close> closed, or with the process ended.
\<close>

function run :: "(nat \<Rightarrow> (string \<times> Color) list) \<Rightarrow> world \<Rightarrow> world" where
  "run mo w = (case worker_step mo w of None \<Rightarrow> w | Some w' \<Rightarrow> run mo w')"
  by pat_completeness auto
termination
  by (relation "measure (\<lambda>(mo, w). length (buf (logCh (lg w)))
                                    + (if proc w = Alive \<and> worker w = Active then 1 else 0))")
     (use worker_step_less in auto)

declare run.simps [simp del]

subsection \<open>The methods of the caller\<close>

text \<open>
  A call by the goroutine that uses the logger returns with the world it leaves, or
  blocks (it goes on once the condition it waits for holds), or ends the process: a
  panic of its own, or \<^verbatim>\<open>os.Exit\<close> in the worker while the call waits.
  \<open>text\<close> is \<^verbatim>\<open>fmt.Sprint(v...)\<close>, the operands of the call printed one after the other.
\<close>

datatype 'a call = Returns 'a | Blocks | Dies 'a

definition Log :: "LogLevel \<Rightarrow> string \<Rightarrow> world \<Rightarrow> world call" where
  "Log lv text w =
     (case chan_send (logCh (lg w)) \<lparr> level = lv, msg = text \<rparr> of
        Sent c \<Rightarrow> Returns (w\<lparr>lg := (lg w)\<lparr>logCh := c\<rparr>\<rparr>)
      | SendBlocks \<Rightarrow> Blocks
      | SendPanics \<Rightarrow> Dies (w\<lparr>proc := Panicked\<rparr>))"

definition Info :: "string \<Rightarrow> world \<Rightarrow> world call" where
  "Info text w =
     (case chan_send (logCh (lg w)) \<lparr> level = LevelInfo, msg = text \<rparr> of
        Sent c \<Rightarrow> Returns (w\<lparr>lg := (lg w)\<lparr>logCh := c\<rparr>\<rparr>)
      | SendBlocks \<Rightarrow> Blocks
      | SendPanics \<Rightarrow> Dies (w\<lparr>proc := Panicked\<rparr>))"

definition Warn :: "string \<Rightarrow> world \<Rightarrow> world call" where
  "Warn text w =
     (case chan_send (logCh (lg w)) \<lparr> level = LevelWarn, msg = text \<rparr> of
        Sent c \<Rightarrow> Returns (w\<lparr>lg := (lg w)\<lparr>logCh := c\<rparr>\<rparr>)
      | SendBlocks \<Rightarrow> Blocks
      | SendPanics \<Rightarrow> Dies (w\<lparr>proc := Panicked\<rparr>))"

definition Error :: "string \<Rightarrow> world \<Rightarrow> world call" where
  "Error text w =
     (case chan_send (logCh (lg w)) \<lparr> level = LevelError, msg = text \<rparr> of
        Sent c \<Rightarrow> Returns (w\<lparr>lg := (lg w)\<lparr>logCh := c\<rparr>\<rparr>)
      | SendBlocks \<Rightarrow> Blocks
      | SendPanics \<Rightarrow> Dies (w\<lparr>proc := Panicked\<rparr>))"

definition Debug :: "string \<Rightarrow> world \<Rightarrow> world call" where
  "Debug text w =
     (case chan_send (logCh (lg w)) \<lparr> level = LevelDebug, msg = text \<rparr> of
        Sent c \<Rightarrow> Returns (w\<lparr>lg := (lg w)\<lparr>logCh := c\<rparr>\<rparr>)
      | SendBlocks \<Rightarrow> Blocks
      | SendPanics \<Rightarrow> Dies (w\<lparr>proc := Panicked\<rparr>))"

definition Print :: "string \<Rightarrow> world \<Rightarrow> world call" where
  "Print text w =
     (case chan_send (logCh (lg w)) \<lparr> level = LevelPrint, msg = text \<rparr> of
        Sent c \<Rightarrow> Returns (w\<lparr>lg := (lg w)\<lparr>logCh := c\<rparr>\<rparr>)
      | SendBlocks \<Rightarrow> Blocks
      | SendPanics \<Rightarrow> Dies (w\<lparr>proc := Panicked\<rparr>))"

definition Fatal :: "string \<Rightarrow> world \<Rightarrow> world call" where
  "Fatal text w =
     (case chan_send (logCh (lg w)) \<lparr> level = LevelFatal, msg = text \<rparr> of
        Sent c \<Rightarrow> Returns (w\<lparr>lg := (lg w)\<lparr>logCh := c\<rparr>\<rparr>)
      | SendBlocks \<Rightarrow> Blocks
      | SendPanics \<Rightarrow> Dies (w\<lparr>proc := Panicked\<rparr>))"

text \<open>
  \<^verbatim>\<open>Close\<close>. After \<^verbatim>\<open>close(lg.logCh)\<close> the caller waits in \<^verbatim>\<open><-lg.done\<close>, and the worker
  is the one that runs: it takes its turns to the end. Then the process has ended
  (\<^verbatim>\<open>os.Exit\<close> in the worker), or \<^verbatim>\<open>lg.done\<close> is closed and the caller goes on and sets
  \<^verbatim>\<open>lg.closed\<close>, or nobody will ever close \<^verbatim>\<open>lg.done\<close> and the call blocks.
\<close>

definition Close :: "(nat \<Rightarrow> (string \<times> Color) list) \<Rightarrow> world \<Rightarrow> world call" where
  "Close mo w =
     (if \<not> closed (lg w) then
        (case chan_close (logCh (lg w)) of
           None \<Rightarrow> Dies (w\<lparr>proc := Panicked\<rparr>)
         | Some c \<Rightarrow>
             (let w1 = run mo (w\<lparr>lg := (lg w)\<lparr>logCh := c\<rparr>\<rparr>) in
              if proc w1 \<noteq> Alive then Dies w1
              else (case chan_recv (done_ch (lg w1)) of
                      RecvClosed \<Rightarrow> Returns (w1\<lparr>lg := (lg w1)\<lparr>closed := True\<rparr>\<rparr>)
                    | RecvBlocks \<Rightarrow> Blocks
                    | Received u d \<Rightarrow> Returns (w1\<lparr>lg := (lg w1)\<lparr>done_ch := d, closed := True\<rparr>\<rparr>))))
      else Returns w)"

section \<open>What the worker writes\<close>

subsection \<open>The text of a line, and the lines of a queue\<close>

text \<open>A format without a percent sign is printed as it is.\<close>

lemma Printf0_plain: "CHR ''%'' \<notin> set s \<Longrightarrow> Printf0 s = s"
  by (induction s) auto

text \<open>The formats of the package, evaluated.\<close>

lemma Sprintf_INFO [simp]: "Sprintf ''%s[INFO]%s %s'' [a, b, c] = a @ ''[INFO]'' @ b @ '' '' @ c"
  and Sprintf_WARN [simp]: "Sprintf ''%s[WARN]%s %s'' [a, b, c] = a @ ''[WARN]'' @ b @ '' '' @ c"
  and Sprintf_ERROR [simp]: "Sprintf ''%s[ERROR]%s %s'' [a, b, c] = a @ ''[ERROR]'' @ b @ '' '' @ c"
  and Sprintf_DEBUG [simp]: "Sprintf ''%s[DEBUG]%s %s'' [a, b, c] = a @ ''[DEBUG]'' @ b @ '' '' @ c"
  and Sprintf_FATAL [simp]: "Sprintf ''%s[FATAL]%s %s'' [a, b, c] = a @ ''[FATAL]'' @ b @ '' '' @ c"
  and Sprintf_ss [simp]: "Sprintf ''%s%s'' [a, b] = a @ b"
  and Sprintf_sss [simp]: "Sprintf ''%s%s%s'' [a, b, c] = a @ b @ c"
  and Sprintf_prefix [simp]: "Sprintf ''%s[%s]%s '' [a, b, c] = a @ ''['' @ b @ '']'' @ c @ '' ''"
  by simp_all

text \<open>
  \<open>formatted ord m\<close> is the text that \<^verbatim>\<open>run\<close> gives the \<^verbatim>\<open>log.Logger\<close> for a message
  that passes the filter (\<open>ord\<close>: the order in which the highlight table is visited).
  \<open>passes\<close> is the filter: \<^verbatim>\<open>run\<close> skips a message when \<^verbatim>\<open>m.level < lg.maxLogLevel\<close>.
\<close>

definition formatted :: "(string \<times> Color) list \<Rightarrow> logMessage \<Rightarrow> string" where
  "formatted ord m =
     (if level m = LevelInfo then Printf0 (Blue @ ''[INFO]'' @ Reset @ '' '' @ msg m)
      else if level m = LevelWarn then Printf0 (Yellow @ ''[WARN]'' @ Reset @ '' '' @ msg m)
      else if level m = LevelError then Printf0 (Red @ ''[ERROR]'' @ Reset @ '' '' @ msg m)
      else if level m = LevelDebug then Printf0 (Grey @ ''[DEBUG]'' @ Reset @ '' '' @ msg m)
      else if level m = LevelFatal then Printf0 (Red @ ''[FATAL]'' @ Reset @ '' '' @ msg m)
      else if level m = LevelPrint then Reset @ colorString ord (msg m)
      else Reset @ msg m)"

definition passes :: "LogLevel \<Rightarrow> logMessage \<Rightarrow> bool" where
  "passes thr m \<longleftrightarrow> \<not> level m < thr"

text \<open>
  A Fatal message that passes the filter ends the process. \<open>reached thr ms\<close> are the
  messages of the queue \<open>ms\<close> that the worker gets to: all of them up to the first
  such message. \<open>lines\<close> are the writes for a list of messages, one each, in their
  order; the counter is the number of \<^verbatim>\<open>range highlights\<close> loops run before.
\<close>

definition fatal_in :: "LogLevel \<Rightarrow> logMessage list \<Rightarrow> bool" where
  "fatal_in thr ms \<longleftrightarrow> list_ex (\<lambda>m. level m = LevelFatal \<and> passes thr m) ms"

fun reached :: "LogLevel \<Rightarrow> logMessage list \<Rightarrow> logMessage list" where
  "reached thr [] = []"
| "reached thr (m # ms) =
     m # (if level m = LevelFatal \<and> passes thr m then [] else reached thr ms)"

fun lines :: "(nat \<Rightarrow> (string \<times> Color) list) \<Rightarrow> log_Logger \<Rightarrow> nat \<Rightarrow> logMessage list \<Rightarrow> written list" where
  "lines mo L k [] = []"
| "lines mo L k (m # ms) =
     Output L (formatted (mo k) m) # lines mo L (if level m = LevelPrint then Suc k else k) ms"

definition prints :: "logMessage list \<Rightarrow> nat" where
  "prints ms = length (filter (\<lambda>m. level m = LevelPrint) ms)"

lemma handle_below: "level m < maxLogLevel (lg w) \<Longrightarrow> handle mo w m = w"
  by (simp add: handle_def)

lemma handle_sink:
  "\<not> level m < maxLogLevel (lg w) \<Longrightarrow>
   sink (handle mo w m) = sink w @ [Output (l (lg w)) (formatted (mo (nranges w)) m)]"
  by (simp add: handle_def formatted_def l_Printf_def os_Exit_def level_defs)

lemma handle_proc:
  "proc (handle mo w m) =
     (if level m = LevelFatal \<and> \<not> level m < maxLogLevel (lg w) then Exited 1 else proc w)"
  by (simp add: handle_def l_Printf_def os_Exit_def level_defs)

lemma handle_nranges:
  "nranges (handle mo w m) =
     (if level m = LevelPrint \<and> \<not> level m < maxLogLevel (lg w) then Suc (nranges w) else nranges w)"
  by (simp add: handle_def l_Printf_def os_Exit_def level_defs)

lemma reached_no_fatal: "\<not> fatal_in thr ms \<Longrightarrow> reached thr ms = ms"
  by (induction ms) (auto simp: fatal_in_def)

lemma lines_append:
  "lines mo L k (xs @ ys) = lines mo L k xs @ lines mo L (k + prints xs) ys"
  by (induction xs arbitrary: k) (auto simp: prints_def)

lemma length_lines [simp]: "length (lines mo L k ms) = length ms"
  by (induction ms arbitrary: k) auto

subsection \<open>The worker run to its end\<close>

text \<open>
  \<open>after_run mo w\<close> is the world once the worker has taken all the turns it has in
  \<open>w\<close>: the messages reached are gone from the channel, those that pass are written in
  their order, the process has exited with status 1 if a Fatal message passed, and the
  worker has closed \<^verbatim>\<open>lg.done\<close> and returned if the channel was closed and no Fatal
  message passed.
\<close>

definition after_run :: "(nat \<Rightarrow> (string \<times> Color) list) \<Rightarrow> world \<Rightarrow> world" where
  "after_run mo w =
     (let thr = maxLogLevel (lg w);
          ms = buf (logCh (lg w));
          seen = reached thr ms;
          fin = (\<not> fatal_in thr ms \<and> chan_closed (logCh (lg w)))
      in w\<lparr> lg := (lg w)\<lparr> logCh := (logCh (lg w))\<lparr>buf := drop (length seen) ms\<rparr>,
                         done_ch := (if fin then (done_ch (lg w))\<lparr>chan_closed := True\<rparr>
                                     else done_ch (lg w)) \<rparr>,
             sink := sink w @ lines mo (l (lg w)) (nranges w) (filter (passes thr) seen),
             worker := (if fin then Finished else Active),
             nranges := nranges w + prints (filter (passes thr) seen),
             proc := (if fatal_in thr ms then Exited 1 else Alive) \<rparr>)"

lemma run_stop: "worker_step mo w = None \<Longrightarrow> run mo w = w"
  by (simp add: run.simps)

lemma run_go: "worker_step mo w = Some w' \<Longrightarrow> run mo w = run mo w'"
  by (simp add: run.simps)

lemma run_dead: "proc w \<noteq> Alive \<Longrightarrow> run mo w = w"
  by (rule run_stop) (simp add: worker_step_def)

lemma worker_step_recv:
  "proc w = Alive \<Longrightarrow> worker w = Active \<Longrightarrow> buf (logCh (lg w)) = m # ms \<Longrightarrow>
   worker_step mo w = Some (handle mo (w\<lparr>lg := (lg w)\<lparr>logCh := (logCh (lg w))\<lparr>buf := ms\<rparr>\<rparr>\<rparr>) m)"
  by (simp add: worker_step_def chan_recv_def)

lemma run_empty:
  assumes "proc w = Alive" "worker w = Active" "\<not> chan_closed (done_ch (lg w))"
    and "buf (logCh (lg w)) = []"
  shows "run mo w = after_run mo w"
proof (cases "chan_closed (logCh (lg w))")
  case False
  have "worker_step mo w = None"
    using assms False by (simp add: worker_step_def chan_recv_def)
  then have "run mo w = w" by (rule run_stop)
  moreover have "after_run mo w = w"
    using assms False by (simp add: after_run_def fatal_in_def prints_def)
  ultimately show ?thesis by simp
next
  case True
  define w' where "w' = w\<lparr>lg := (lg w)\<lparr>done_ch := (done_ch (lg w))\<lparr>chan_closed := True\<rparr>\<rparr>, worker := Finished\<rparr>"
  have "worker_step mo w = Some w'"
    using assms True by (simp add: worker_step_def chan_recv_def chan_close_def w'_def)
  then have "run mo w = run mo w'" by (rule run_go)
  also have "run mo w' = w'" by (rule run_stop) (simp add: worker_step_def w'_def)
  finally have "run mo w = w'" .
  moreover have "after_run mo w = w'"
    using assms True by (simp add: after_run_def fatal_in_def prints_def w'_def)
  ultimately show ?thesis by simp
qed

lemma run_after_run:
  assumes "proc w = Alive" "worker w = Active" "\<not> chan_closed (done_ch (lg w))"
  shows "run mo w = after_run mo w"
  using assms
proof (induction "buf (logCh (lg w))" arbitrary: w)
  case Nil
  then show ?case by (simp add: run_empty)
next
  case (Cons m ms)
  define w1 where "w1 = w\<lparr>lg := (lg w)\<lparr>logCh := (logCh (lg w))\<lparr>buf := ms\<rparr>\<rparr>\<rparr>"
  have bufw: "buf (logCh (lg w)) = m # ms" using Cons.hyps(2) by simp
  have step: "worker_step mo w = Some (handle mo w1 m)"
    unfolding w1_def using Cons.prems bufw by (simp add: worker_step_recv)
  have go: "run mo w = run mo (handle mo w1 m)" using step by (rule run_go)
  have w1: "proc w1 = Alive" "worker w1 = Active" "\<not> chan_closed (done_ch (lg w1))"
    "ms = buf (logCh (lg w1))" "maxLogLevel (lg w1) = maxLogLevel (lg w)"
    using Cons.prems by (simp_all add: w1_def)
  show ?case
  proof (cases "level m < maxLogLevel (lg w)")
    case True
    then have h: "handle mo w1 m = w1" using w1(5) by (simp add: handle_below)
    have "run mo w1 = after_run mo w1" using w1 by (intro Cons.hyps(1)) simp_all
    moreover have "after_run mo w1 = after_run mo w"
      using True bufw by (simp add: after_run_def Let_def w1_def passes_def fatal_in_def)
    ultimately show ?thesis using go h by simp
  next
    case False
    note pass = False
    show ?thesis
    proof (cases "level m = LevelFatal")
      case True
      have dead: "proc (handle mo w1 m) \<noteq> Alive"
        using True pass w1(5) by (simp add: handle_proc)
      have "run mo (handle mo w1 m) = handle mo w1 m" using dead by (rule run_dead)
      moreover have "handle mo w1 m = after_run mo w"
        using True pass bufw Cons.prems
        by (simp add: after_run_def Let_def w1_def handle_def l_Printf_def os_Exit_def formatted_def
            passes_def fatal_in_def prints_def level_defs)
      ultimately show ?thesis using go by simp
    next
      case False
      define w2 where "w2 = handle mo w1 m"
      have w2: "proc w2 = Alive" "worker w2 = Active" "\<not> chan_closed (done_ch (lg w2))"
        "ms = buf (logCh (lg w2))"
        using w1 False by (simp_all add: w2_def handle_proc)
      have "run mo w2 = after_run mo w2" using w2 by (intro Cons.hyps(1)) simp_all
      moreover have "after_run mo w2 = after_run mo w"
        using False pass bufw Cons.prems
        by (simp add: after_run_def Let_def w2_def w1_def handle_sink handle_nranges handle_proc
            passes_def fatal_in_def prints_def)
      ultimately show ?thesis using go by (simp add: w2_def)
    qed
  qed
qed

section \<open>A caller and the worker\<close>

text \<open>
  One goroutine calls the methods of the logger, and the worker takes its turns in
  between: a history is a list of calls and turns of the worker. \<open>exec\<close> runs a
  history; it has no result when a step cannot be taken where it stands (a send on
  the full channel, a turn of the worker that waits, any step after the process has
  ended). A call that ends the process leaves the dead world.
\<close>

datatype action =
    DoLog LogLevel string | DoDebug string | DoInfo string | DoWarn string | DoError string
  | DoPrint string | DoFatal string
  | DoSetLevel LogLevel | DoSetPrintTime bool | DoClose
  | Work

definition finish :: "world call \<Rightarrow> world option" where
  "finish r = (case r of Returns w \<Rightarrow> Some w | Blocks \<Rightarrow> None | Dies w \<Rightarrow> Some w)"

definition act :: "(nat \<Rightarrow> (string \<times> Color) list) \<Rightarrow> action \<Rightarrow> world \<Rightarrow> world option" where
  "act mo a w =
     (case a of
        Work \<Rightarrow> worker_step mo w
      | DoLog lv text \<Rightarrow> if proc w = Alive then finish (Log lv text w) else None
      | DoDebug text \<Rightarrow> if proc w = Alive then finish (Debug text w) else None
      | DoInfo text \<Rightarrow> if proc w = Alive then finish (Info text w) else None
      | DoWarn text \<Rightarrow> if proc w = Alive then finish (Warn text w) else None
      | DoError text \<Rightarrow> if proc w = Alive then finish (Error text w) else None
      | DoPrint text \<Rightarrow> if proc w = Alive then finish (Print text w) else None
      | DoFatal text \<Rightarrow> if proc w = Alive then finish (Fatal text w) else None
      | DoSetLevel lv \<Rightarrow> if proc w = Alive then Some (SetLevel lv w) else None
      | DoSetPrintTime p \<Rightarrow> if proc w = Alive then Some (SetPrintTime p w) else None
      | DoClose \<Rightarrow> if proc w = Alive then finish (Close mo w) else None)"

fun exec :: "(nat \<Rightarrow> (string \<times> Color) list) \<Rightarrow> action list \<Rightarrow> world \<Rightarrow> world option" where
  "exec mo [] w = Some w"
| "exec mo (a # as) w = (case act mo a w of None \<Rightarrow> None | Some w' \<Rightarrow> exec mo as w')"

text \<open>
  What holds of a logger made by \<^verbatim>\<open>New\<close> for as long as the process lives: the channel
  has capacity 100 and holds no more; until \<^verbatim>\<open>Close\<close> has returned both channels are
  open and the worker is there, and from then on both are closed, the queue is empty
  and the worker has returned.
\<close>

definition sound :: "world \<Rightarrow> bool" where
  "sound w \<longleftrightarrow>
     cap (logCh (lg w)) = 100 \<and> length (buf (logCh (lg w))) \<le> 100 \<and> buf (done_ch (lg w)) = [] \<and>
     (if closed (lg w)
      then chan_closed (logCh (lg w)) \<and> chan_closed (done_ch (lg w)) \<and> worker w = Finished
           \<and> buf (logCh (lg w)) = []
      else \<not> chan_closed (logCh (lg w)) \<and> \<not> chan_closed (done_ch (lg w)) \<and> worker w = Active)"

lemma methods_Log:
  "Debug text w = Log LevelDebug text w" "Info text w = Log LevelInfo text w"
  "Warn text w = Log LevelWarn text w" "Error text w = Log LevelError text w"
  "Print text w = Log LevelPrint text w" "Fatal text w = Log LevelFatal text w"
  by (simp_all add: Debug_def Info_def Warn_def Error_def Print_def Fatal_def Log_def)

text \<open>The message an action enqueues, if it is an enqueue.\<close>

fun enqueues :: "action \<Rightarrow> logMessage option" where
  "enqueues (DoLog lv text) = Some \<lparr> level = lv, msg = text \<rparr>"
| "enqueues (DoDebug text) = Some \<lparr> level = LevelDebug, msg = text \<rparr>"
| "enqueues (DoInfo text) = Some \<lparr> level = LevelInfo, msg = text \<rparr>"
| "enqueues (DoWarn text) = Some \<lparr> level = LevelWarn, msg = text \<rparr>"
| "enqueues (DoError text) = Some \<lparr> level = LevelError, msg = text \<rparr>"
| "enqueues (DoPrint text) = Some \<lparr> level = LevelPrint, msg = text \<rparr>"
| "enqueues (DoFatal text) = Some \<lparr> level = LevelFatal, msg = text \<rparr>"
| "enqueues a = None"

lemma act_enqueue:
  "enqueues a = Some m \<Longrightarrow>
   act mo a w = (if proc w = Alive then finish (Log (level m) (msg m) w) else None)"
  by (cases a) (auto simp: act_def methods_Log)

lemma sound_New: "sound (New modname col writers)"
  by (simp add: sound_def New_def make_chan_def Let_def)

lemma act_alive: "act mo a w = Some w' \<Longrightarrow> proc w = Alive"
  by (cases a) (auto simp: act_def worker_step_def split: if_splits)

lemma Close_open:
  assumes "sound w" "proc w = Alive" "\<not> closed (lg w)"
  shows "Close mo w =
           (let w1 = after_run mo (w\<lparr>lg := (lg w)\<lparr>logCh := (logCh (lg w))\<lparr>chan_closed := True\<rparr>\<rparr>\<rparr>)
            in if fatal_in (maxLogLevel (lg w)) (buf (logCh (lg w))) then Dies w1
               else Returns (w1\<lparr>lg := (lg w1)\<lparr>closed := True\<rparr>\<rparr>))"
proof -
  define w0 where "w0 = w\<lparr>lg := (lg w)\<lparr>logCh := (logCh (lg w))\<lparr>chan_closed := True\<rparr>\<rparr>\<rparr>"
  have open_ch: "\<not> chan_closed (logCh (lg w))" "\<not> chan_closed (done_ch (lg w))" "worker w = Active"
    "buf (done_ch (lg w)) = []"
    using assms by (simp_all add: sound_def)
  have r: "run mo w0 = after_run mo w0"
    by (rule run_after_run) (use assms open_ch in \<open>simp_all add: w0_def\<close>)
  show ?thesis
    using assms open_ch r
    by (simp add: Close_def chan_close_def w0_def [symmetric] Let_def)
       (simp add: after_run_def Let_def w0_def chan_recv_def)
qed

lemma sound_act:
  assumes "sound w" "act mo a w = Some w'" "proc w' = Alive"
  shows "sound w'"
proof (cases "enqueues a")
  case (Some m)
  then show ?thesis using assms
    by (auto simp: act_enqueue finish_def Log_def chan_send_def sound_def split: if_splits)
next
  case None
  then show ?thesis
  proof (cases a)
  case (DoSetLevel lv)
  then show ?thesis using assms by (auto simp: act_def SetLevel_def sound_def split: if_splits)
next
  case (DoSetPrintTime p)
  then show ?thesis using assms
    by (auto simp: act_def SetPrintTime_def sound_def Let_def split: if_splits)
next
  case Work
  then show ?thesis using assms
    by (auto simp: act_def worker_step_def chan_recv_def sound_def
             split: if_splits list.splits option.splits)
next
  case DoClose
  have al: "proc w = Alive" using assms(2) by (rule act_alive)
  show ?thesis
  proof (cases "closed (lg w)")
    case True
    then show ?thesis using assms DoClose al by (simp add: act_def finish_def Close_def)
  next
    case False
    show ?thesis
      using assms DoClose al False Close_open [OF assms(1) al False, of mo]
      by (auto simp: act_def finish_def Let_def after_run_def sound_def reached_no_fatal
               split: if_splits)
  qed
  qed simp_all
qed

lemma sound_exec:
  "sound w \<Longrightarrow> exec mo as w = Some w' \<Longrightarrow> proc w' = Alive \<Longrightarrow> sound w'"
proof (induction as arbitrary: w)
  case Nil
  then show ?case by simp
next
  case (Cons a as)
  from Cons.prems(2) obtain w1 where a: "act mo a w = Some w1" and r: "exec mo as w1 = Some w'"
    by (auto split: option.splits)
  have "proc w1 = Alive"
  proof (cases as)
    case Nil
    then show ?thesis using r Cons.prems(3) by simp
  next
    case (Cons b bs)
    then obtain w2 where "act mo b w1 = Some w2" using r by (auto split: option.splits)
    then show ?thesis by (rule act_alive)
  qed
  with Cons.prems(1) a have "sound w1" by (rule sound_act)
  then show ?case using r Cons.prems(3) by (rule Cons.IH)
qed

text \<open>Facts used for several claims.\<close>

lemma sound_reachable:
  "exec mo as (New n c ws) = Some w \<Longrightarrow> proc w = Alive \<Longrightarrow> sound w"
  using sound_New by (rule sound_exec)

lemma reached_append:
  "\<not> fatal_in thr xs \<Longrightarrow> reached thr (xs @ ys) = xs @ reached thr ys"
  by (induction xs) (auto simp: fatal_in_def)

lemma fatal_in_append [simp]: "fatal_in thr (xs @ ys) \<longleftrightarrow> fatal_in thr xs \<or> fatal_in thr ys"
  by (simp add: fatal_in_def list_ex_iff) blast

lemma formatted_Fatal:
  "level m = LevelFatal \<Longrightarrow> formatted ord m = Printf0 (Red @ ''[FATAL]'' @ Reset @ '' '' @ msg m)"
  by (simp add: formatted_def level_defs)

section \<open>The claims\<close>

text \<open>
  For the concrete instances below: the Go runtime that visits the highlight table in
  the order of the source, every time.
\<close>

definition table_order :: "nat \<Rightarrow> (string \<times> Color) list" where
  "table_order k = highlights"

subsection \<open>The level filter\<close>

text \<open>
  C1. For every threshold and every message the worker receives from the queue, the
  message is written to the sink if and only if its level is at least the threshold.
  A message below the threshold is discarded silently: handling it leaves the world as
  it was. Otherwise exactly one line is appended to the sink, the formatted message.
  The same holds of the turn of the worker that takes the message off the queue.
\<close>

theorem threshold_filter:
  "(level m < maxLogLevel (lg w) \<longrightarrow> handle mo w m = w) \<and>
   (\<not> level m < maxLogLevel (lg w) \<longrightarrow>
      sink (handle mo w m) = sink w @ [Output (l (lg w)) (formatted (mo (nranges w)) m)]) \<and>
   (sink (handle mo w m) \<noteq> sink w \<longleftrightarrow> maxLogLevel (lg w) \<le> level m) \<and>
   (proc w = Alive \<and> worker w = Active \<and> buf (logCh (lg w)) = m # ms \<longrightarrow>
      (\<exists>w'. worker_step mo w = Some w' \<and> buf (logCh (lg w')) = ms \<and>
            sink w' = (if maxLogLevel (lg w) \<le> level m
                       then sink w @ [Output (l (lg w)) (formatted (mo (nranges w)) m)]
                       else sink w)))"
proof (intro conjI impI)
  assume "level m < maxLogLevel (lg w)"
  then show "handle mo w m = w" by (rule handle_below)
next
  assume "\<not> level m < maxLogLevel (lg w)"
  then show "sink (handle mo w m) = sink w @ [Output (l (lg w)) (formatted (mo (nranges w)) m)]"
    by (rule handle_sink)
next
  show "sink (handle mo w m) \<noteq> sink w \<longleftrightarrow> maxLogLevel (lg w) \<le> level m"
    by (cases "level m < maxLogLevel (lg w)") (simp_all add: handle_below handle_sink)
next
  assume a: "proc w = Alive \<and> worker w = Active \<and> buf (logCh (lg w)) = m # ms"
  let ?w1 = "w\<lparr>lg := (lg w)\<lparr>logCh := (logCh (lg w))\<lparr>buf := ms\<rparr>\<rparr>\<rparr>"
  have s: "worker_step mo w = Some (handle mo ?w1 m)"
    using a by (simp add: worker_step_recv)
  have "sink (handle mo ?w1 m) = (if maxLogLevel (lg w) \<le> level m
                       then sink w @ [Output (l (lg w)) (formatted (mo (nranges w)) m)]
                       else sink w)"
    by (cases "level m < maxLogLevel (lg w)") (simp_all add: handle_below handle_sink)
  then show "\<exists>w'. worker_step mo w = Some w' \<and> buf (logCh (lg w')) = ms \<and>
            sink w' = (if maxLogLevel (lg w) \<le> level m
                       then sink w @ [Output (l (lg w)) (formatted (mo (nranges w)) m)]
                       else sink w)"
    using s by simp
qed

text \<open>The logger \<^verbatim>\<open>New\<close> returns, field by field.\<close>

lemma New_simps:
  "lg (New n c ws) = \<lparr> l = \<lparr> l_out = (if ws = [] then [Stdout] else ws),
                              l_prefix = c @ ''['' @ n @ '']'' @ Grey @ '' '', l_flags = LstdFlags \<rparr>,
                  logCh = make_chan 100, done_ch = make_chan 0, closed = False,
                  printTime = True, maxLogLevel = LevelInfo, color = c, module = n \<rparr>"
  "sink (New n c ws) = []" "worker (New n c ws) = Active" "nranges (New n c ws) = 0"
  "proc (New n c ws) = Alive"
  by (simp_all add: New_def Let_def)

text \<open>
  At the default threshold Info, a Debug message is discarded and a Warn message is
  written.
\<close>

theorem threshold_filter_witness:
  "handle table_order (New ''app'' Green []) \<lparr> level = LevelDebug, msg = ''a'' \<rparr> = New ''app'' Green [] \<and>
   sink (handle table_order (New ''app'' Green []) \<lparr> level = LevelWarn, msg = ''b'' \<rparr>) =
     [\<lparr> w_to = [Stdout], w_prefix = Green @ ''[app]'' @ Grey @ '' '', w_stamp = True,
        w_text = Yellow @ ''[WARN]'' @ Reset @ '' b'' @ [CHR 0x0A] \<rparr>]"
  using threshold_filter [of "\<lparr> level = LevelDebug, msg = ''a'' \<rparr>" "New ''app'' Green []" table_order]
    threshold_filter [of "\<lparr> level = LevelWarn, msg = ''b'' \<rparr>" "New ''app'' Green []" table_order]
  by (simp add: New_simps level_defs formatted_def Output_def LstdFlags_def Printf0_plain color_defs)

text \<open>
  C9. A Print message is never discarded by the filter: for every threshold among the
  six named levels, a message enqueued at the Print level passes the filter and is
  written to the sink. This holds of the loop body, which appends the line (the reset
  code and the highlighted text) and changes nothing else but the count of visits of
  the highlight table; of the turn of the worker that takes the message off the head
  of the queue; and of the call of \<^verbatim>\<open>Print\<close> itself on any live logger that is not
  closed: with room in the queue the call returns with the message appended to the
  queue, and when it has returned and no Fatal message that passes the filter is
  queued ahead, the worker, run until the queue is empty, has written the line of the
  message last, after the lines of the messages queued before it, and the process
  lives.
\<close>

theorem print_passes_filter:
  assumes "maxLogLevel (lg w) \<in> levels" and "level m = LevelPrint"
  shows "passes (maxLogLevel (lg w)) m \<and>
         handle mo w m =
           w\<lparr> sink := sink w @ [Output (l (lg w)) (Reset @ colorString (mo (nranges w)) (msg m))],
               nranges := Suc (nranges w) \<rparr> \<and>
         (proc w = Alive \<and> worker w = Active \<and> buf (logCh (lg w)) = m # ms \<longrightarrow>
            worker_step mo w =
              Some (w\<lparr> lg := (lg w)\<lparr>logCh := (logCh (lg w))\<lparr>buf := ms\<rparr>\<rparr>,
                       sink := sink w @ [Output (l (lg w)) (Reset @ colorString (mo (nranges w)) (msg m))],
                       nranges := Suc (nranges w) \<rparr>)) \<and>
         (exec mo as (New n c ws) = Some w \<and> proc w = Alive \<and> \<not> closed (lg w) \<longrightarrow>
            (length (buf (logCh (lg w))) < 100 \<longrightarrow> (\<exists>w1. Print (msg m) w = Returns w1)) \<and>
            (\<forall>w1. Print (msg m) w = Returns w1 \<longrightarrow>
               buf (logCh (lg w1)) = buf (logCh (lg w)) @ [\<lparr> level = LevelPrint, msg = msg m \<rparr>] \<and>
               (\<not> fatal_in (maxLogLevel (lg w)) (buf (logCh (lg w))) \<longrightarrow>
                  proc (run mo w1) = Alive \<and> buf (logCh (lg (run mo w1))) = [] \<and>
                  sink (run mo w1) =
                    sink w @ lines mo (l (lg w)) (nranges w)
                               (filter (passes (maxLogLevel (lg w))) (buf (logCh (lg w))))
                      @ [Output (l (lg w))
                           (Reset @ colorString
                              (mo (nranges w + prints (filter (passes (maxLogLevel (lg w)))
                                                         (buf (logCh (lg w))))))
                              (msg m))])))"
proof -
  define thr where "thr = maxLogLevel (lg w)"
  define q where "q = buf (logCh (lg w))"
  define pm where "pm = \<lparr> level = LevelPrint, msg = msg m \<rparr>"
  have le: "thr \<le> LevelPrint"
    using assms(1) by (auto simp: levels_def level_defs thr_def)
  then have p: "\<not> level m < maxLogLevel (lg w)" using assms(2) by (simp add: thr_def)
  have c1: "passes (maxLogLevel (lg w)) m" using p by (simp add: passes_def)
  have c2: "handle mo w m =
           w\<lparr> sink := sink w @ [Output (l (lg w)) (Reset @ colorString (mo (nranges w)) (msg m))],
               nranges := Suc (nranges w) \<rparr>"
    using p assms(2) by (simp add: handle_def l_Printf_def level_defs)
  have c3: "worker_step mo w =
              Some (w\<lparr> lg := (lg w)\<lparr>logCh := (logCh (lg w))\<lparr>buf := ms\<rparr>\<rparr>,
                       sink := sink w @ [Output (l (lg w)) (Reset @ colorString (mo (nranges w)) (msg m))],
                       nranges := Suc (nranges w) \<rparr>)"
    if "proc w = Alive \<and> worker w = Active \<and> buf (logCh (lg w)) = m # ms"
    using that p assms(2)
    by (simp add: worker_step_recv) (simp add: handle_def l_Printf_def level_defs)
  have c4: "(length q < 100 \<longrightarrow> (\<exists>w1. Print (msg m) w = Returns w1)) \<and>
            (\<forall>w1. Print (msg m) w = Returns w1 \<longrightarrow>
               buf (logCh (lg w1)) = q @ [pm] \<and>
               (\<not> fatal_in thr q \<longrightarrow>
                  proc (run mo w1) = Alive \<and> buf (logCh (lg (run mo w1))) = [] \<and>
                  sink (run mo w1) =
                    sink w @ lines mo (l (lg w)) (nranges w) (filter (passes thr) q)
                      @ [Output (l (lg w))
                           (Reset @ colorString (mo (nranges w + prints (filter (passes thr) q))) (msg m))]))"
    if a: "exec mo as (New n c ws) = Some w \<and> proc w = Alive \<and> \<not> closed (lg w)"
  proof -
    have snd: "sound w" using a by (auto intro: sound_reachable)
    then have st: "cap (logCh (lg w)) = 100" "\<not> chan_closed (logCh (lg w))"
      "\<not> chan_closed (done_ch (lg w))" "worker w = Active"
      using a by (simp_all add: sound_def)
    have room: "\<exists>w1. Print (msg m) w = Returns w1" if "length q < 100"
      using that st by (simp add: Print_def chan_send_def q_def)
    have after: "buf (logCh (lg w1)) = q @ [pm] \<and>
               (\<not> fatal_in thr q \<longrightarrow>
                  proc (run mo w1) = Alive \<and> buf (logCh (lg (run mo w1))) = [] \<and>
                  sink (run mo w1) =
                    sink w @ lines mo (l (lg w)) (nranges w) (filter (passes thr) q)
                      @ [Output (l (lg w))
                           (Reset @ colorString (mo (nranges w + prints (filter (passes thr) q))) (msg m))])"
      if r: "Print (msg m) w = Returns w1" for w1
    proof -
      have w1: "w1 = w\<lparr>lg := (lg w)\<lparr>logCh := (logCh (lg w))\<lparr>buf := q @ [pm]\<rparr>\<rparr>\<rparr>"
        using r by (auto simp: Print_def chan_send_def q_def pm_def split: if_splits)
      have ru: "run mo w1 = after_run mo w1"
        by (rule run_after_run) (use a st in \<open>simp_all add: w1\<close>)
      have pp: "passes thr pm" using le by (simp add: passes_def pm_def)
      have nfp: "\<not> fatal_in thr [pm]" by (simp add: fatal_in_def pm_def level_defs)
      have rest: "proc (run mo w1) = Alive \<and> buf (logCh (lg (run mo w1))) = [] \<and>
                  sink (run mo w1) =
                    sink w @ lines mo (l (lg w)) (nranges w) (filter (passes thr) q)
                      @ [Output (l (lg w))
                           (Reset @ colorString (mo (nranges w + prints (filter (passes thr) q))) (msg m))]"
        if nf: "\<not> fatal_in thr q"
      proof -
        have nfa: "\<not> fatal_in thr (q @ [pm])" using nf nfp by simp
        have re: "reached thr (q @ [pm]) = q @ [pm]" using nfa by (rule reached_no_fatal)
        have fl: "filter (passes thr) (q @ [pm]) = filter (passes thr) q @ [pm]"
          using pp by simp
        have fm: "formatted ord pm = Reset @ colorString ord (msg m)" for ord
          by (simp add: formatted_def pm_def level_defs)
        have "proc (after_run mo w1) = Alive \<and> buf (logCh (lg (after_run mo w1))) = [] \<and>
                  sink (after_run mo w1) =
                    sink w @ lines mo (l (lg w)) (nranges w) (filter (passes thr) q)
                      @ [Output (l (lg w))
                           (Reset @ colorString (mo (nranges w + prints (filter (passes thr) q))) (msg m))]"
          using nfa re fl
          by (simp add: after_run_def Let_def w1 lines_append fm flip: thr_def)
        then show ?thesis by (simp add: ru)
      qed
      show ?thesis using rest by (simp add: w1)
    qed
    show ?thesis using room after by blast
  qed
  show ?thesis
    using c1 c2 c3 c4 unfolding thr_def q_def pm_def by blast
qed

text \<open>
  With the threshold at Fatal, \<^verbatim>\<open>Print("raw")\<close> on a new logger returns, and the worker
  writes the message and the process lives.
\<close>

theorem print_passes_filter_witness:
  "LevelFatal \<in> levels \<and>
   sink (handle table_order (SetLevel LevelFatal (New ''app'' Green [])) \<lparr> level = LevelPrint, msg = ''raw'' \<rparr>) =
     [\<lparr> w_to = [Stdout], w_prefix = Green @ ''[app]'' @ Grey @ '' '', w_stamp = True,
        w_text = Reset @ ''raw'' @ [CHR 0x0A] \<rparr>] \<and>
   (\<exists>w1. Print ''raw'' (SetLevel LevelFatal (New ''app'' Green [])) = Returns w1 \<and>
         proc (run table_order w1) = Alive \<and>
         map w_text (sink (run table_order w1)) = [Reset @ ''raw'' @ [CHR 0x0A]])"
proof -
  let ?w = "SetLevel LevelFatal (New ''app'' Green [])"
  let ?m = "\<lparr> level = LevelPrint, msg = ''raw'' \<rparr>"
  have h: "maxLogLevel (lg ?w) \<in> levels"
    by (simp add: SetLevel_def New_simps levels_def)
  have lv: "level ?m = LevelPrint" by simp
  have c: "colorString highlights ''raw'' = ''raw''" by code_simp
  note t = print_passes_filter [OF h lv, of table_order "[]" "[DoSetLevel LevelFatal]" "''app''" Green "[]"]
  have a: "sink (handle table_order ?w ?m) =
     [\<lparr> w_to = [Stdout], w_prefix = Green @ ''[app]'' @ Grey @ '' '', w_stamp = True,
        w_text = Reset @ ''raw'' @ [CHR 0x0A] \<rparr>]"
    using t [THEN conjunct2, THEN conjunct1] c
    by (simp add: SetLevel_def New_simps Output_def LstdFlags_def table_order_def color_defs)
  have e: "exec table_order [DoSetLevel LevelFatal] (New ''app'' Green []) = Some ?w \<and>
           proc ?w = Alive \<and> \<not> closed (lg ?w)"
    by (simp add: act_def SetLevel_def New_simps)
  have len: "length (buf (logCh (lg ?w))) < 100"
    and nf: "\<not> fatal_in (maxLogLevel (lg ?w)) (buf (logCh (lg ?w)))"
    by (simp_all add: SetLevel_def New_simps make_chan_def fatal_in_def)
  note u = t [THEN conjunct2, THEN conjunct2, THEN conjunct2, rule_format, OF e]
  from u [THEN conjunct1] len obtain w1 where r: "Print (msg ?m) ?w = Returns w1" by blast
  from u [THEN conjunct2, rule_format, OF r] nf
  have p: "proc (run table_order w1) = Alive"
    and s: "sink (run table_order w1) =
                    sink ?w @ lines table_order (l (lg ?w)) (nranges ?w)
                               (filter (passes (maxLogLevel (lg ?w))) (buf (logCh (lg ?w))))
                      @ [Output (l (lg ?w))
                           (Reset @ colorString
                              (table_order (nranges ?w + prints (filter (passes (maxLogLevel (lg ?w)))
                                                         (buf (logCh (lg ?w))))))
                              (msg ?m))]"
    by blast+
  have q: "map w_text (sink (run table_order w1)) = [Reset @ ''raw'' @ [CHR 0x0A]]"
    unfolding s using c
    by (simp add: SetLevel_def New_simps make_chan_def Output_def table_order_def color_defs)
  have r': "Print ''raw'' ?w = Returns w1" using r by simp
  have ex: "\<exists>w1. Print ''raw'' ?w = Returns w1 \<and> proc (run table_order w1) = Alive \<and>
         map w_text (sink (run table_order w1)) = [Reset @ ''raw'' @ [CHR 0x0A]]"
    by (rule exI [of _ w1]) (intro conjI r' p q)
  have l: "LevelFatal \<in> levels" by (simp add: levels_def)
  show ?thesis by (intro conjI l a ex)
qed

text \<open>
  C10. A Fatal message goes through the same filter as every other message. Print is
  the only named level above Fatal; with the threshold at Print a Fatal message is
  discarded: nothing is written and the process is not ended. Handling a message ends
  the process (with status 1) exactly when the message is Fatal and the threshold is at
  most Fatal. A call of \<^verbatim>\<open>Fatal\<close> on a new logger whose threshold was set to Print
  returns, and the worker, run to its end, leaves the logger as it was before the
  call.
\<close>

theorem fatal_filtered:
  "(\<forall>lv \<in> levels. LevelFatal < lv \<longleftrightarrow> lv = LevelPrint) \<and>
   (level m = LevelFatal \<and> maxLogLevel (lg w) = LevelPrint \<longrightarrow> handle mo w m = w) \<and>
   (proc w = Alive \<longrightarrow>
      proc (handle mo w m) =
        (if level m = LevelFatal \<and> maxLogLevel (lg w) \<le> LevelFatal then Exited 1 else Alive)) \<and>
   (\<exists>w1. Fatal text (SetLevel LevelPrint (New n c ws)) = Returns w1 \<and>
         run mo w1 = SetLevel LevelPrint (New n c ws))"
proof (intro conjI impI)
  show "\<forall>lv \<in> levels. LevelFatal < lv \<longleftrightarrow> lv = LevelPrint"
    by (auto simp: levels_def level_defs)
next
  assume "level m = LevelFatal \<and> maxLogLevel (lg w) = LevelPrint"
  then show "handle mo w m = w" by (simp add: handle_below level_defs)
next
  assume "proc w = Alive"
  then show "proc (handle mo w m) =
        (if level m = LevelFatal \<and> maxLogLevel (lg w) \<le> LevelFatal then Exited 1 else Alive)"
    by (auto simp: handle_proc)
next
  let ?w = "SetLevel LevelPrint (New n c ws)"
  let ?w1 = "?w\<lparr>lg := (lg ?w)\<lparr>logCh := (logCh (lg ?w))\<lparr>buf := [\<lparr> level = LevelFatal, msg = text \<rparr>]\<rparr>\<rparr>\<rparr>"
  have f: "Fatal text ?w = Returns ?w1"
    by (simp add: Fatal_def chan_send_def SetLevel_def New_simps make_chan_def)
  have "run mo ?w1 = after_run mo ?w1"
    by (rule run_after_run) (simp_all add: SetLevel_def New_simps make_chan_def)
  also have "\<dots> = ?w"
    by (simp add: after_run_def Let_def SetLevel_def New_def make_chan_def fatal_in_def passes_def
        prints_def level_defs)
  finally show "\<exists>w1. Fatal text ?w = Returns w1 \<and> run mo w1 = ?w" using f by blast
qed

text \<open>
  The threshold Print discards the Fatal message \<^verbatim>\<open>x\<close>; the default threshold Info lets
  it end the process.
\<close>

theorem fatal_filtered_witness:
  "LevelPrint \<in> levels \<and> LevelFatal < LevelPrint \<and>
   handle table_order (SetLevel LevelPrint (New ''app'' Green [])) \<lparr> level = LevelFatal, msg = ''x'' \<rparr>
     = SetLevel LevelPrint (New ''app'' Green []) \<and>
   proc (handle table_order (New ''app'' Green []) \<lparr> level = LevelFatal, msg = ''x'' \<rparr>) = Exited 1"
proof -
  note t1 = fatal_filtered [of "\<lparr> level = LevelFatal, msg = ''x'' \<rparr>"
      "SetLevel LevelPrint (New ''app'' Green [])" table_order "''x''" "''app''" Green "[]"]
  note t2 = fatal_filtered [of "\<lparr> level = LevelFatal, msg = ''x'' \<rparr>"
      "New ''app'' Green []" table_order "''x''" "''app''" Green "[]"]
  have p: "LevelPrint \<in> levels" by (simp add: levels_def)
  have a: "LevelFatal < LevelPrint" using t1 p by blast
  have b: "handle table_order (SetLevel LevelPrint (New ''app'' Green [])) \<lparr> level = LevelFatal, msg = ''x'' \<rparr>
     = SetLevel LevelPrint (New ''app'' Green [])"
    using t1 [THEN conjunct2, THEN conjunct1] by (simp add: SetLevel_def New_simps)
  have c: "proc (handle table_order (New ''app'' Green []) \<lparr> level = LevelFatal, msg = ''x'' \<rparr>) = Exited 1"
    using t2 [THEN conjunct2, THEN conjunct2, THEN conjunct1] by (simp add: New_simps level_defs)
  show ?thesis using p a b c by simp
qed

subsection \<open>Highlighting\<close>

text \<open>
  The text \<^verbatim>\<open>status OK, method GET\<close> with \<^verbatim>\<open>OK\<close> and \<^verbatim>\<open>GET\<close> wrapped or not. Whatever
  entry of the table is visited next, the text goes from one of these four to another.
\<close>

definition status_text :: "bool \<Rightarrow> bool \<Rightarrow> string" where
  "status_text ok_done get_done =
     ''status '' @ (if ok_done then Green @ ''OK'' @ Reset else ''OK'') @ '', method ''
       @ (if get_done then Blue @ ''GET'' @ Reset else ''GET'')"

lemma status_steps:
  "list_all (\<lambda>(word, col). list_all (\<lambda>(b1, b2).
      (word = ''OK'' \<longrightarrow> \<not> b1) \<longrightarrow> (word = ''GET'' \<longrightarrow> \<not> b2) \<longrightarrow>
      ReplaceAll (status_text b1 b2) word (col @ word @ Reset)
        = status_text (b1 \<or> word = ''OK'') (b2 \<or> word = ''GET''))
     [(False, False), (False, True), (True, False), (True, True)]) highlights"
  by code_simp

lemma status_step:
  assumes "(word, col) \<in> set highlights" "word = ''OK'' \<longrightarrow> \<not> b1" "word = ''GET'' \<longrightarrow> \<not> b2"
  shows "ReplaceAll (status_text b1 b2) word (col @ word @ Reset)
           = status_text (b1 \<or> word = ''OK'') (b2 \<or> word = ''GET'')"
  using status_steps assms unfolding list_all_iff
  by (cases b1; cases b2) fastforce+

lemma highlights_keys: "distinct (map fst highlights)"
  by code_simp

lemma range_order_keys:
  assumes "range_order ord"
  shows "distinct (map fst ord)"
proof -
  have "inj_on fst (set highlights)"
    using highlights_keys by (simp add: distinct_map)
  then show ?thesis using assms by (simp add: range_order_def distinct_map)
qed

lemma colorString_status_text:
  "distinct (map fst ord) \<Longrightarrow> set ord \<subseteq> set highlights \<Longrightarrow>
   (b1 \<longrightarrow> ''OK'' \<notin> fst ` set ord) \<Longrightarrow> (b2 \<longrightarrow> ''GET'' \<notin> fst ` set ord) \<Longrightarrow>
   colorString ord (status_text b1 b2)
     = status_text (b1 \<or> ''OK'' \<in> fst ` set ord) (b2 \<or> ''GET'' \<in> fst ` set ord)"
proof (induction ord arbitrary: b1 b2)
  case Nil
  then show ?case by (simp add: colorString_def)
next
  case (Cons e ord)
  obtain word col where e: "e = (word, col)" by (cases e)
  from Cons.prems e have mem: "(word, col) \<in> set highlights"
    and fresh: "word \<notin> fst ` set ord" and dist: "distinct (map fst ord)"
    and sub: "set ord \<subseteq> set highlights"
    and n1: "word = ''OK'' \<longrightarrow> \<not> b1" and n2: "word = ''GET'' \<longrightarrow> \<not> b2"
    by auto
  have step: "ReplaceAll (status_text b1 b2) word (col @ word @ Reset)
                = status_text (b1 \<or> word = ''OK'') (b2 \<or> word = ''GET'')"
    by (rule status_step [OF mem n1 n2])
  have a1: "(b1 \<or> word = ''OK'') \<longrightarrow> ''OK'' \<notin> fst ` set ord"
    using Cons.prems(3) fresh e by auto
  have a2: "(b2 \<or> word = ''GET'') \<longrightarrow> ''GET'' \<notin> fst ` set ord"
    using Cons.prems(4) fresh e by auto
  have "colorString (e # ord) (status_text b1 b2)
          = colorString ord (status_text (b1 \<or> word = ''OK'') (b2 \<or> word = ''GET''))"
    using step by (simp add: colorString_def e)
  also have "\<dots> = status_text ((b1 \<or> word = ''OK'') \<or> ''OK'' \<in> fst ` set ord)
                              ((b2 \<or> word = ''GET'') \<or> ''GET'' \<in> fst ` set ord)"
    by (rule Cons.IH [OF dist sub a1 a2])
  finally have r: "colorString (e # ord) (status_text b1 b2)
      = status_text ((b1 \<or> word = ''OK'') \<or> ''OK'' \<in> fst ` set ord)
                    ((b2 \<or> word = ''GET'') \<or> ''GET'' \<in> fst ` set ord)" .
  have q1: "((b1 \<or> word = ''OK'') \<or> ''OK'' \<in> fst ` set ord) = (b1 \<or> ''OK'' \<in> fst ` set (e # ord))"
    using e by auto
  have q2: "((b2 \<or> word = ''GET'') \<or> ''GET'' \<in> fst ` set ord) = (b2 \<or> ''GET'' \<in> fst ` set (e # ord))"
    using e by auto
  show ?case unfolding r q1 q2 ..
qed

text \<open>
  C8. For the Print-level input \<^verbatim>\<open>status OK, method GET\<close> the highlighted text has
  \<^verbatim>\<open>OK\<close> wrapped in the green code and \<^verbatim>\<open>GET\<close> in the blue code, each followed at once
  by the reset code, and the rest of the text unchanged; this is so in whatever order
  the highlight table is visited. The line written for the Print message is the reset
  code followed by that text.
\<close>

theorem highlight_status_line:
  assumes "range_order ord"
  shows "colorString ord ''status OK, method GET''
           = ''status '' @ Green @ ''OK'' @ Reset @ '', method '' @ Blue @ ''GET'' @ Reset \<and>
         (mo (nranges w) = ord \<and> maxLogLevel (lg w) \<le> LevelPrint \<longrightarrow>
          sink (handle mo w \<lparr> level = LevelPrint, msg = ''status OK, method GET'' \<rparr>)
            = sink w @ [Output (l (lg w))
                 (Reset @ ''status '' @ Green @ ''OK'' @ Reset @ '', method '' @ Blue @ ''GET'' @ Reset)])"
proof -
  have k: "distinct (map fst ord)" by (rule range_order_keys [OF assms])
  have s: "set ord = set highlights" using assms by (simp add: range_order_def)
  have ok: "''OK'' \<in> fst ` set ord" and get: "''GET'' \<in> fst ` set ord"
    unfolding s by (simp_all add: highlights_def)
  have "colorString ord (status_text False False)
          = status_text (False \<or> ''OK'' \<in> fst ` set ord) (False \<or> ''GET'' \<in> fst ` set ord)"
    by (rule colorString_status_text) (use k s in simp_all)
  then have c: "colorString ord ''status OK, method GET''
           = ''status '' @ Green @ ''OK'' @ Reset @ '', method '' @ Blue @ ''GET'' @ Reset"
    using ok get by (simp add: status_text_def)
  then show ?thesis by (simp add: handle_sink formatted_def level_defs)
qed

text \<open>The table visited from its last entry to its first.\<close>

theorem highlight_status_line_witness:
  "range_order (rev highlights) \<and>
   colorString (rev highlights) ''status OK, method GET''
     = ''status '' @ Green @ ''OK'' @ Reset @ '', method '' @ Blue @ ''GET'' @ Reset \<and>
   map w_text (sink (handle (\<lambda>k. rev highlights) (New ''app'' Green [])
                       \<lparr> level = LevelPrint, msg = ''status OK, method GET'' \<rparr>))
     = [Reset @ ''status '' @ Green @ ''OK'' @ Reset @ '', method '' @ Blue @ ''GET'' @ Reset @ [CHR 0x0A]]"
proof -
  have r: "range_order (rev highlights)"
    unfolding range_order_def by code_simp
  note t = highlight_status_line [OF r, of "\<lambda>k. rev highlights" "New ''app'' Green []"]
  have "sink (handle (\<lambda>k. rev highlights) (New ''app'' Green [])
                       \<lparr> level = LevelPrint, msg = ''status OK, method GET'' \<rparr>)
        = sink (New ''app'' Green []) @ [Output (l (lg (New ''app'' Green [])))
                 (Reset @ ''status '' @ Green @ ''OK'' @ Reset @ '', method '' @ Blue @ ''GET'' @ Reset)]"
    using t [THEN conjunct2] by (simp add: New_simps level_defs)
  then have "map w_text (sink (handle (\<lambda>k. rev highlights) (New ''app'' Green [])
                       \<lparr> level = LevelPrint, msg = ''status OK, method GET'' \<rparr>))
     = [Reset @ ''status '' @ Green @ ''OK'' @ Reset @ '', method '' @ Blue @ ''GET'' @ Reset @ [CHR 0x0A]]"
    by (simp add: New_simps Output_def color_defs)
  then show ?thesis using r t [THEN conjunct1] by simp
qed

subsection \<open>Construction\<close>

text \<open>
  C6. For every module name, colour and list of writers, \<^verbatim>\<open>New\<close> returns a logger (it
  has no failure) whose threshold is Info, whose timestamps are on, whose queue is
  empty, open and of capacity 100, and whose worker has been started: it waits while
  the queue is empty and takes the first message enqueued. With no writer given the
  output goes to standard output. Accordingly a Debug message is discarded by the new
  logger, and an Info message is written, stamped, under the prefix of the module.
\<close>

theorem New_defaults:
  "maxLogLevel (lg (New n c ws)) = LevelInfo \<and>
   printTime (lg (New n c ws)) = True \<and>
   l_flags (l (lg (New n c ws))) = LstdFlags \<and>
   logCh (lg (New n c ws)) = \<lparr> buf = [], cap = 100, chan_closed = False \<rparr> \<and>
   closed (lg (New n c ws)) = False \<and>
   worker (New n c ws) = Active \<and>
   proc (New n c ws) = Alive \<and>
   sink (New n c ws) = [] \<and>
   l_out (l (lg (New n c ws))) = (if ws = [] then [Stdout] else ws) \<and>
   worker_step mo (New n c ws) = None \<and>
   (\<exists>w1. Info t (New n c ws) = Returns w1 \<and>
         worker_step mo w1 = Some (handle mo (New n c ws) \<lparr> level = LevelInfo, msg = t \<rparr>)) \<and>
   handle mo (New n c ws) \<lparr> level = LevelDebug, msg = t \<rparr> = New n c ws \<and>
   sink (handle mo (New n c []) \<lparr> level = LevelInfo, msg = t \<rparr>)
     = [\<lparr> w_to = [Stdout], w_prefix = c @ ''['' @ n @ '']'' @ Grey @ '' '', w_stamp = True,
          w_text = w_text (Output (l (lg (New n c []))) (formatted (mo 0) \<lparr> level = LevelInfo, msg = t \<rparr>)) \<rparr>]"
proof -
  let ?w = "New n c ws"
  let ?w1 = "?w\<lparr>lg := (lg ?w)\<lparr>logCh := (logCh (lg ?w))\<lparr>buf := [\<lparr> level = LevelInfo, msg = t \<rparr>]\<rparr>\<rparr>\<rparr>"
  have i: "Info t ?w = Returns ?w1"
    by (simp add: Info_def chan_send_def New_simps make_chan_def)
  have "worker_step mo ?w1 = Some (handle mo (?w1\<lparr>lg := (lg ?w1)\<lparr>logCh := (logCh (lg ?w1))\<lparr>buf := []\<rparr>\<rparr>\<rparr>) \<lparr> level = LevelInfo, msg = t \<rparr>)"
    by (rule worker_step_recv) (simp_all add: New_simps)
  moreover have "?w1\<lparr>lg := (lg ?w1)\<lparr>logCh := (logCh (lg ?w1))\<lparr>buf := []\<rparr>\<rparr>\<rparr> = ?w"
    by (simp add: New_def Let_def make_chan_def)
  ultimately have s: "worker_step mo ?w1 = Some (handle mo ?w \<lparr> level = LevelInfo, msg = t \<rparr>)"
    by simp
  have e: "\<exists>w1. Info t ?w = Returns w1 \<and>
         worker_step mo w1 = Some (handle mo ?w \<lparr> level = LevelInfo, msg = t \<rparr>)"
    using i s by blast
  have d: "handle mo ?w \<lparr> level = LevelDebug, msg = t \<rparr> = ?w"
    by (rule handle_below) (simp add: New_simps level_defs)
  have wt: "worker_step mo ?w = None"
    by (simp add: worker_step_def chan_recv_def New_simps make_chan_def)
  have h: "sink (handle mo (New n c []) \<lparr> level = LevelInfo, msg = t \<rparr>)
     = [\<lparr> w_to = [Stdout], w_prefix = c @ ''['' @ n @ '']'' @ Grey @ '' '', w_stamp = True,
          w_text = w_text (Output (l (lg (New n c []))) (formatted (mo 0) \<lparr> level = LevelInfo, msg = t \<rparr>)) \<rparr>]"
    by (simp add: handle_sink New_simps Output_def LstdFlags_def)
  show ?thesis
    using e d wt h by (simp add: New_simps make_chan_def)
qed

theorem New_defaults_witness:
  "l_out (l (lg (New ''app'' Green [Writer 0, Writer 1]))) = [Writer 0, Writer 1] \<and>
   l_out (l (lg (New ''app'' Green []))) = [Stdout] \<and>
   maxLogLevel (lg (New ''app'' Green [])) = LevelInfo \<and>
   cap (logCh (lg (New ''app'' Green []))) = 100 \<and>
   worker (New ''app'' Green []) = Active \<and>
   handle table_order (New ''app'' Green []) \<lparr> level = LevelDebug, msg = ''quiet'' \<rparr> = New ''app'' Green []"
  using New_defaults [of "''app''" Green "[Writer 0, Writer 1]" table_order "''quiet''"]
    New_defaults [of "''app''" Green "[]" table_order "''quiet''"]
  by simp

subsection \<open>The format of a line\<close>

text \<open>
  For a text without a percent sign the five tagged levels give the colour, the tag,
  the reset code, a blank and the text; a level that is not named gives the reset code
  and the text.
\<close>

lemma formatted_plain:
  assumes "CHR ''%'' \<notin> set (msg m)"
  shows "formatted ord m =
     (if level m = LevelInfo then Blue @ ''[INFO]'' @ Reset @ '' '' @ msg m
      else if level m = LevelWarn then Yellow @ ''[WARN]'' @ Reset @ '' '' @ msg m
      else if level m = LevelError then Red @ ''[ERROR]'' @ Reset @ '' '' @ msg m
      else if level m = LevelDebug then Grey @ ''[DEBUG]'' @ Reset @ '' '' @ msg m
      else if level m = LevelFatal then Red @ ''[FATAL]'' @ Reset @ '' '' @ msg m
      else if level m = LevelPrint then Reset @ colorString ord (msg m)
      else Reset @ msg m)"
  using assms by (simp add: formatted_def Printf0_plain color_defs)

lemma formatted_unnamed: "level m \<notin> levels \<Longrightarrow> formatted ord m = Reset @ msg m"
  by (simp add: formatted_def levels_def)

text \<open>
  C7. The worker builds the text \<^verbatim>\<open><colour>[INFO]<reset> 100%\<close> for the Info message
  \<^verbatim>\<open>100%\<close>, but it passes that text to \<^verbatim>\<open>Printf\<close> as the format, and \<^verbatim>\<open>fmt\<close> reads the
  percent sign at its end as a directive without a verb: the line written ends in
  \<^verbatim>\<open>100%!(NOVERB)\<close>.
\<close>

theorem percent_text_rewritten:
  "Sprintf ''%s[INFO]%s %s'' [Blue, Reset, ''100%''] = Blue @ ''[INFO]'' @ Reset @ '' 100%'' \<and>
   map w_text (sink (handle mo (New ''app'' Green []) \<lparr> level = LevelInfo, msg = ''100%'' \<rparr>))
     = [Blue @ ''[INFO]'' @ Reset @ '' 100%!(NOVERB)'' @ [CHR 0x0A]]"
proof -
  have p: "Printf0 (Blue @ ''[INFO]'' @ Reset @ '' 100%'') = Blue @ ''[INFO]'' @ Reset @ '' 100%!(NOVERB)''"
    by code_simp
  show ?thesis
    using p by (simp add: handle_sink New_simps level_defs formatted_def Output_def)
qed

subsection \<open>Fatal\<close>

text \<open>
  When the threshold is at most Fatal at the time the worker handles a Fatal message,
  the message is formatted and written to the sink and the process exits with status
  1 after the write; the loop body ends the process for no message of another level.
  In particular, when \<^verbatim>\<open>Fatal\<close> is called on a live logger that is not closed, with
  room in the queue and the threshold at most Fatal, the call returns and the worker,
  run to its end, leaves the process exited with status 1; if no Fatal message was
  queued before, the last line written is the line of this message.
\<close>

theorem fatal_exits_at_threshold:
  "(level m = LevelFatal \<and> maxLogLevel (lg w) \<le> LevelFatal \<longrightarrow>
      handle mo w m =
        w\<lparr> sink := sink w @ [Output (l (lg w)) (Printf0 (Red @ ''[FATAL]'' @ Reset @ '' '' @ msg m))],
            proc := Exited 1 \<rparr>) \<and>
   (proc w = Alive \<and> proc (handle mo w m) \<noteq> Alive \<longrightarrow>
      level m = LevelFatal \<and> maxLogLevel (lg w) \<le> LevelFatal \<and> proc (handle mo w m) = Exited 1) \<and>
   (exec mo as (New n c ws) = Some w \<and> proc w = Alive \<and> \<not> closed (lg w)
      \<and> length (buf (logCh (lg w))) < 100 \<and> maxLogLevel (lg w) \<le> LevelFatal \<longrightarrow>
      (\<exists>w1. Fatal text w = Returns w1 \<and> proc (run mo w1) = Exited 1 \<and>
            (\<not> fatal_in (maxLogLevel (lg w)) (buf (logCh (lg w))) \<longrightarrow>
               sink (run mo w1) =
                 sink w @ lines mo (l (lg w)) (nranges w)
                            (filter (passes (maxLogLevel (lg w))) (buf (logCh (lg w))))
                   @ [Output (l (lg w)) (Printf0 (Red @ ''[FATAL]'' @ Reset @ '' '' @ text))])))"
proof (intro conjI)
  show "level m = LevelFatal \<and> maxLogLevel (lg w) \<le> LevelFatal \<longrightarrow>
      handle mo w m =
        w\<lparr> sink := sink w @ [Output (l (lg w)) (Printf0 (Red @ ''[FATAL]'' @ Reset @ '' '' @ msg m))],
            proc := Exited 1 \<rparr>"
    by (simp add: handle_def l_Printf_def os_Exit_def level_defs)
next
  show "proc w = Alive \<and> proc (handle mo w m) \<noteq> Alive \<longrightarrow>
      level m = LevelFatal \<and> maxLogLevel (lg w) \<le> LevelFatal \<and> proc (handle mo w m) = Exited 1"
    by (auto simp: handle_proc split: if_splits)
next
  show "exec mo as (New n c ws) = Some w \<and> proc w = Alive \<and> \<not> closed (lg w)
      \<and> length (buf (logCh (lg w))) < 100 \<and> maxLogLevel (lg w) \<le> LevelFatal \<longrightarrow>
      (\<exists>w1. Fatal text w = Returns w1 \<and> proc (run mo w1) = Exited 1 \<and>
            (\<not> fatal_in (maxLogLevel (lg w)) (buf (logCh (lg w))) \<longrightarrow>
               sink (run mo w1) =
                 sink w @ lines mo (l (lg w)) (nranges w)
                            (filter (passes (maxLogLevel (lg w))) (buf (logCh (lg w))))
                   @ [Output (l (lg w)) (Printf0 (Red @ ''[FATAL]'' @ Reset @ '' '' @ text))]))"
  proof
  assume a: "exec mo as (New n c ws) = Some w \<and> proc w = Alive \<and> \<not> closed (lg w)
      \<and> length (buf (logCh (lg w))) < 100 \<and> maxLogLevel (lg w) \<le> LevelFatal"
  define thr where "thr = maxLogLevel (lg w)"
  define q where "q = buf (logCh (lg w))"
  define fm where "fm = \<lparr> level = LevelFatal, msg = text \<rparr>"
  define w1 where "w1 = w\<lparr>lg := (lg w)\<lparr>logCh := (logCh (lg w))\<lparr>buf := q @ [fm]\<rparr>\<rparr>\<rparr>"
  have snd: "sound w" using a by (auto intro: sound_reachable)
  then have st: "cap (logCh (lg w)) = 100" "\<not> chan_closed (logCh (lg w))"
    "\<not> chan_closed (done_ch (lg w))" "worker w = Active"
    using a by (simp_all add: sound_def)
  have f: "Fatal text w = Returns w1"
    using a st by (simp add: Fatal_def chan_send_def w1_def q_def fm_def)
  have r: "run mo w1 = after_run mo w1"
    by (rule run_after_run) (use a st in \<open>simp_all add: w1_def\<close>)
  have pf: "passes thr fm" using a by (simp add: passes_def fm_def thr_def)
  have fi: "fatal_in thr (q @ [fm])" using pf by (simp add: fatal_in_def fm_def)
  have "proc (after_run mo w1) = Exited 1"
    using fi by (simp add: after_run_def Let_def w1_def thr_def)
  then have p: "proc (run mo w1) = Exited 1" by (simp add: r)
  have s: "sink (run mo w1) =
             sink w @ lines mo (l (lg w)) (nranges w) (filter (passes thr) q)
               @ [Output (l (lg w)) (Printf0 (Red @ ''[FATAL]'' @ Reset @ '' '' @ text))]"
    if nf: "\<not> fatal_in thr q"
  proof -
    have "reached thr (q @ [fm]) = q @ [fm]" using nf by (simp add: reached_append)
    then have "filter (passes thr) (reached thr (q @ [fm])) = filter (passes thr) q @ [fm]"
      using pf by simp
    then have "sink (after_run mo w1) =
             sink w @ lines mo (l (lg w)) (nranges w) (filter (passes thr) q)
               @ [Output (l (lg w)) (Printf0 (Red @ ''[FATAL]'' @ Reset @ '' '' @ text))]"
      by (simp add: after_run_def Let_def w1_def lines_append formatted_Fatal fm_def flip: thr_def)
    then show ?thesis by (simp add: r)
  qed
  show "\<exists>w1. Fatal text w = Returns w1 \<and> proc (run mo w1) = Exited 1 \<and>
            (\<not> fatal_in (maxLogLevel (lg w)) (buf (logCh (lg w))) \<longrightarrow>
               sink (run mo w1) =
                 sink w @ lines mo (l (lg w)) (nranges w)
                            (filter (passes (maxLogLevel (lg w))) (buf (logCh (lg w))))
                   @ [Output (l (lg w)) (Printf0 (Red @ ''[FATAL]'' @ Reset @ '' '' @ text))])"
    using f p s unfolding thr_def q_def by blast
  qed
qed

text \<open>
  At the default threshold the Fatal message \<^verbatim>\<open>x\<close> is written and the process exits,
  in the loop body and from the call of \<^verbatim>\<open>Fatal\<close> on a new logger.
\<close>

theorem fatal_exits_at_threshold_witness:
  "handle table_order (New ''app'' Green []) \<lparr> level = LevelFatal, msg = ''x'' \<rparr> =
     (New ''app'' Green [])
       \<lparr> sink := [\<lparr> w_to = [Stdout], w_prefix = Green @ ''[app]'' @ Grey @ '' '', w_stamp = True,
                    w_text = Red @ ''[FATAL]'' @ Reset @ '' x'' @ [CHR 0x0A] \<rparr>],
         proc := Exited 1 \<rparr> \<and>
   (\<exists>w1. Fatal ''x'' (New ''app'' Green []) = Returns w1 \<and>
         proc (run table_order w1) = Exited 1 \<and>
         map w_text (sink (run table_order w1)) = [Red @ ''[FATAL]'' @ Reset @ '' x'' @ [CHR 0x0A]])"
proof -
  note t = fatal_exits_at_threshold [of "\<lparr> level = LevelFatal, msg = ''x'' \<rparr>" "New ''app'' Green []"
      table_order "[]" "''app''" Green "[]" "''x''"]
  have a: "handle table_order (New ''app'' Green []) \<lparr> level = LevelFatal, msg = ''x'' \<rparr> =
     (New ''app'' Green [])
       \<lparr> sink := [\<lparr> w_to = [Stdout], w_prefix = Green @ ''[app]'' @ Grey @ '' '', w_stamp = True,
                    w_text = Red @ ''[FATAL]'' @ Reset @ '' x'' @ [CHR 0x0A] \<rparr>],
         proc := Exited 1 \<rparr>"
    using t [THEN conjunct1]
    by (simp add: New_simps level_defs Output_def LstdFlags_def Printf0_plain color_defs)
  have h: "exec table_order [] (New ''app'' Green []) = Some (New ''app'' Green []) \<and>
      proc (New ''app'' Green []) = Alive \<and> \<not> closed (lg (New ''app'' Green []))
      \<and> length (buf (logCh (lg (New ''app'' Green [])))) < 100
      \<and> maxLogLevel (lg (New ''app'' Green [])) \<le> LevelFatal"
    by (simp add: New_simps make_chan_def level_defs)
  have nf: "\<not> fatal_in (maxLogLevel (lg (New ''app'' Green []))) (buf (logCh (lg (New ''app'' Green []))))"
    by (simp add: New_simps make_chan_def fatal_in_def)
  from t [THEN conjunct2, THEN conjunct2] h nf
  obtain w1 where f: "Fatal ''x'' (New ''app'' Green []) = Returns w1"
    and p: "proc (run table_order w1) = Exited 1"
    and s: "sink (run table_order w1) =
                 sink (New ''app'' Green []) @ lines table_order (l (lg (New ''app'' Green []))) (nranges (New ''app'' Green []))
                            (filter (passes (maxLogLevel (lg (New ''app'' Green [])))) (buf (logCh (lg (New ''app'' Green [])))))
                   @ [Output (l (lg (New ''app'' Green []))) (Printf0 (Red @ ''[FATAL]'' @ Reset @ '' '' @ ''x''))]"
    by blast
  have q: "map w_text (sink (run table_order w1)) = [Red @ ''[FATAL]'' @ Reset @ '' x'' @ [CHR 0x0A]]"
    unfolding s by (simp add: New_simps make_chan_def Output_def Printf0_plain color_defs)
  have e: "\<exists>w1. Fatal ''x'' (New ''app'' Green []) = Returns w1 \<and>
         proc (run table_order w1) = Exited 1 \<and>
         map w_text (sink (run table_order w1)) = [Red @ ''[FATAL]'' @ Reset @ '' x'' @ [CHR 0x0A]]"
    by (rule exI [of _ w1]) (intro conjI f p q)
  show ?thesis by (rule conjI [OF a e])
qed

text \<open>
  C2. \<^verbatim>\<open>Fatal\<close> is documented as pushing its message to the channel and exiting, but
  the worker writes the message and ends the process with status 1 only when the
  message passes the filter. At \<^verbatim>\<open>SetLevel(LevelPrint)\<close>, \<^verbatim>\<open>Fatal("x")\<close>, \<^verbatim>\<open>Close()\<close> on a
  new logger every call returns; at the end the worker has taken the message off the
  queue and finished, nothing has been written and the process is alive.
\<close>

theorem fatal_at_threshold_print:
  "map_option proc (exec table_order [DoSetLevel LevelPrint, DoFatal ''x'', DoClose] (New ''app'' Green []))
     = Some Alive \<and>
   map_option sink (exec table_order [DoSetLevel LevelPrint, DoFatal ''x'', DoClose] (New ''app'' Green []))
     = Some [] \<and>
   map_option worker (exec table_order [DoSetLevel LevelPrint, DoFatal ''x'', DoClose] (New ''app'' Green []))
     = Some Finished \<and>
   map_option (\<lambda>w. buf (logCh (lg w)))
     (exec table_order [DoSetLevel LevelPrint, DoFatal ''x'', DoClose] (New ''app'' Green []))
     = Some []"
  by code_simp

subsection \<open>Close\<close>

lemma exec_append:
  "exec mo (as @ bs) w = (case exec mo as w of None \<Rightarrow> None | Some w' \<Rightarrow> exec mo bs w')"
  by (induction as arbitrary: w) (auto split: option.splits)

text \<open>
  C3. In every state a live logger can be in: a call of \<^verbatim>\<open>Close\<close> on a logger that is
  already closed returns at once and changes nothing. The first call closes the queue
  and waits for the worker; when no queued Fatal message passes the filter it returns,
  and then every queued message that passes the filter has been written, in order,
  the queue is empty and closed, the worker has closed \<^verbatim>\<open>lg.done\<close> and returned, the
  logger is marked closed, and a further \<^verbatim>\<open>Close\<close> returns the same world. When a
  queued Fatal message passes the filter the call does not return: the worker ends the
  process with status 1 after writing up to that message.
\<close>

theorem Close_idempotent:
  assumes "exec mo as (New n c ws) = Some w" and "proc w = Alive"
  shows "(closed (lg w) \<longrightarrow> Close mo w = Returns w) \<and>
         (\<not> closed (lg w) \<and> \<not> fatal_in (maxLogLevel (lg w)) (buf (logCh (lg w))) \<longrightarrow>
            (\<exists>w'. Close mo w = Returns w' \<and>
                  sink w' = sink w @ lines mo (l (lg w)) (nranges w)
                                       (filter (passes (maxLogLevel (lg w))) (buf (logCh (lg w)))) \<and>
                  buf (logCh (lg w')) = [] \<and> chan_closed (logCh (lg w')) \<and>
                  worker w' = Finished \<and> chan_closed (done_ch (lg w')) \<and>
                  closed (lg w') \<and> proc w' = Alive \<and>
                  Close mo w' = Returns w')) \<and>
         (\<not> closed (lg w) \<and> fatal_in (maxLogLevel (lg w)) (buf (logCh (lg w))) \<longrightarrow>
            (\<exists>w'. Close mo w = Dies w' \<and> proc w' = Exited 1 \<and>
                  sink w' = sink w @ lines mo (l (lg w)) (nranges w)
                                       (filter (passes (maxLogLevel (lg w)))
                                          (reached (maxLogLevel (lg w)) (buf (logCh (lg w)))))))"
proof -
  have snd: "sound w" using assms by (rule sound_reachable)
  have c1: "closed (lg w) \<longrightarrow> Close mo w = Returns w"
    by (simp add: Close_def)
  have c2: "\<exists>w'. Close mo w = Returns w' \<and>
                  sink w' = sink w @ lines mo (l (lg w)) (nranges w)
                                       (filter (passes (maxLogLevel (lg w))) (buf (logCh (lg w)))) \<and>
                  buf (logCh (lg w')) = [] \<and> chan_closed (logCh (lg w')) \<and>
                  worker w' = Finished \<and> chan_closed (done_ch (lg w')) \<and>
                  closed (lg w') \<and> proc w' = Alive \<and>
                  Close mo w' = Returns w'"
    if "\<not> closed (lg w)" "\<not> fatal_in (maxLogLevel (lg w)) (buf (logCh (lg w)))"
    using Close_open [OF snd assms(2) that(1), of mo] that
    by (simp add: Let_def after_run_def reached_no_fatal Close_def)
  have c3: "\<exists>w'. Close mo w = Dies w' \<and> proc w' = Exited 1 \<and>
                  sink w' = sink w @ lines mo (l (lg w)) (nranges w)
                                       (filter (passes (maxLogLevel (lg w)))
                                          (reached (maxLogLevel (lg w)) (buf (logCh (lg w)))))"
    if "\<not> closed (lg w)" "fatal_in (maxLogLevel (lg w)) (buf (logCh (lg w)))"
    using Close_open [OF snd assms(2) that(1), of mo] that
    by (simp add: Let_def after_run_def)
  show ?thesis using c1 c2 c3 by blast
qed

text \<open>
  Threshold Warn, then \<^verbatim>\<open>Info("a")\<close>, \<^verbatim>\<open>Warn("b")\<close>, \<^verbatim>\<open>Error("c")\<close> and two calls of
  \<^verbatim>\<open>Close\<close>: the sink holds the lines of \<^verbatim>\<open>b\<close> and \<^verbatim>\<open>c\<close>.
\<close>

theorem Close_idempotent_witness:
  "exec table_order [DoSetLevel LevelWarn, DoInfo ''a'', DoWarn ''b'', DoError ''c''] (New ''app'' Green [])
     \<noteq> None \<and>
   map_option (map w_text \<circ> sink)
     (exec table_order [DoSetLevel LevelWarn, DoInfo ''a'', DoWarn ''b'', DoError ''c'', DoClose, DoClose]
        (New ''app'' Green []))
     = Some [Yellow @ ''[WARN]'' @ Reset @ '' b'' @ [CHR 0x0A], Red @ ''[ERROR]'' @ Reset @ '' c'' @ [CHR 0x0A]]"
proof -
  let ?e = "exec table_order [DoSetLevel LevelWarn, DoInfo ''a'', DoWarn ''b'', DoError ''c'']
      (New ''app'' Green [])"
  have ne: "?e \<noteq> None" by code_simp
  then obtain w where e: "?e = Some w" by auto
  have "map_option proc ?e = Some Alive" by code_simp
  then have p: "proc w = Alive" unfolding e by simp
  have "map_option (\<lambda>w. closed (lg w)) ?e = Some False" by code_simp
  then have nc: "\<not> closed (lg w)" unfolding e by simp
  have "map_option (\<lambda>w. fatal_in (maxLogLevel (lg w)) (buf (logCh (lg w)))) ?e = Some False"
    by code_simp
  then have nf: "\<not> fatal_in (maxLogLevel (lg w)) (buf (logCh (lg w)))" unfolding e by simp
  have "map_option (\<lambda>w. map w_text (sink w @ lines table_order (l (lg w)) (nranges w)
                                       (filter (passes (maxLogLevel (lg w))) (buf (logCh (lg w)))))) ?e
          = Some [Yellow @ ''[WARN]'' @ Reset @ '' b'' @ [CHR 0x0A], Red @ ''[ERROR]'' @ Reset @ '' c'' @ [CHR 0x0A]]"
    by code_simp
  then have q: "map w_text (sink w @ lines table_order (l (lg w)) (nranges w)
                                       (filter (passes (maxLogLevel (lg w))) (buf (logCh (lg w)))))
              = [Yellow @ ''[WARN]'' @ Reset @ '' b'' @ [CHR 0x0A], Red @ ''[ERROR]'' @ Reset @ '' c'' @ [CHR 0x0A]]"
    unfolding e by simp
  from Close_idempotent [OF e p] nc nf
  obtain w' where c: "Close table_order w = Returns w'"
    and s: "sink w' = sink w @ lines table_order (l (lg w)) (nranges w)
                                       (filter (passes (maxLogLevel (lg w))) (buf (logCh (lg w))))"
    and a: "proc w' = Alive" and c': "Close table_order w' = Returns w'"
    by blast
  have "exec table_order ([DoSetLevel LevelWarn, DoInfo ''a'', DoWarn ''b'', DoError ''c''] @ [DoClose, DoClose])
          (New ''app'' Green []) = Some w'"
    unfolding exec_append e using p c a c' by (simp add: act_def finish_def)
  then show ?thesis using ne s q by (simp del: exec.simps)
qed

subsection \<open>The bounded queue\<close>

text \<open>
  C5. In every state of a live logger on which \<^verbatim>\<open>Close\<close> has not been called, the
  queue has capacity 100 and holds at most 100 messages; \<^verbatim>\<open>Log\<close> (and each of
  \<^verbatim>\<open>Debug\<close>, \<^verbatim>\<open>Info\<close>, \<^verbatim>\<open>Warn\<close>, \<^verbatim>\<open>Error\<close>, \<^verbatim>\<open>Print\<close>, \<^verbatim>\<open>Fatal\<close>, which are \<^verbatim>\<open>Log\<close> at their
  level) appends the message and returns when fewer than 100 messages are queued, and
  blocks when 100 are: it never fails. When 100 are queued the worker has a turn; its
  receive takes the oldest message off the queue and leaves 99, and with the slot
  freed the call appends its message and returns.
\<close>

theorem enqueue_backpressure:
  assumes "exec mo as (New n c ws) = Some w" and "proc w = Alive" and "\<not> closed (lg w)"
  shows "cap (logCh (lg w)) = 100 \<and> length (buf (logCh (lg w))) \<le> 100 \<and>
         Log lv text w =
           (if length (buf (logCh (lg w))) < 100
            then Returns (w\<lparr>lg := (lg w)\<lparr>logCh := (logCh (lg w))
                            \<lparr>buf := buf (logCh (lg w)) @ [\<lparr> level = lv, msg = text \<rparr>]\<rparr>\<rparr>\<rparr>)
            else Blocks) \<and>
         Debug text w = Log LevelDebug text w \<and> Info text w = Log LevelInfo text w \<and>
         Warn text w = Log LevelWarn text w \<and> Error text w = Log LevelError text w \<and>
         Print text w = Log LevelPrint text w \<and> Fatal text w = Log LevelFatal text w \<and>
         (length (buf (logCh (lg w))) = 100 \<longrightarrow>
            (\<exists>m0 ms. buf (logCh (lg w)) = m0 # ms \<and> length ms = 99 \<and>
                  chan_recv (logCh (lg w)) = Received m0 ((logCh (lg w))\<lparr>buf := ms\<rparr>) \<and>
                  worker_step mo w =
                    Some (handle mo (w\<lparr>lg := (lg w)\<lparr>logCh := (logCh (lg w))\<lparr>buf := ms\<rparr>\<rparr>\<rparr>) m0) \<and>
                  Log lv text (w\<lparr>lg := (lg w)\<lparr>logCh := (logCh (lg w))\<lparr>buf := ms\<rparr>\<rparr>\<rparr>) =
                    Returns (w\<lparr>lg := (lg w)\<lparr>logCh := (logCh (lg w))
                                    \<lparr>buf := ms @ [\<lparr> level = lv, msg = text \<rparr>]\<rparr>\<rparr>\<rparr>)))"
proof -
  have snd: "sound w" using assms(1,2) by (rule sound_reachable)
  then have st: "cap (logCh (lg w)) = 100" "length (buf (logCh (lg w))) \<le> 100"
    "\<not> chan_closed (logCh (lg w))" "worker w = Active"
    using assms(3) by (simp_all add: sound_def)
  have lg: "Log lv text w =
           (if length (buf (logCh (lg w))) < 100
            then Returns (w\<lparr>lg := (lg w)\<lparr>logCh := (logCh (lg w))
                            \<lparr>buf := buf (logCh (lg w)) @ [\<lparr> level = lv, msg = text \<rparr>]\<rparr>\<rparr>\<rparr>)
            else Blocks)"
    using st by (simp add: Log_def chan_send_def)
  have full: "\<exists>m0 ms. buf (logCh (lg w)) = m0 # ms \<and> length ms = 99 \<and>
                  chan_recv (logCh (lg w)) = Received m0 ((logCh (lg w))\<lparr>buf := ms\<rparr>) \<and>
                  worker_step mo w =
                    Some (handle mo (w\<lparr>lg := (lg w)\<lparr>logCh := (logCh (lg w))\<lparr>buf := ms\<rparr>\<rparr>\<rparr>) m0) \<and>
                  Log lv text (w\<lparr>lg := (lg w)\<lparr>logCh := (logCh (lg w))\<lparr>buf := ms\<rparr>\<rparr>\<rparr>) =
                    Returns (w\<lparr>lg := (lg w)\<lparr>logCh := (logCh (lg w))
                                    \<lparr>buf := ms @ [\<lparr> level = lv, msg = text \<rparr>]\<rparr>\<rparr>\<rparr>)"
    if len: "length (buf (logCh (lg w))) = 100"
  proof -
    obtain m0 ms where b: "buf (logCh (lg w)) = m0 # ms" and l: "length ms = 99"
      using len by (cases "buf (logCh (lg w))") auto
    have r: "chan_recv (logCh (lg w)) = Received m0 ((logCh (lg w))\<lparr>buf := ms\<rparr>)"
      using b by (simp add: chan_recv_def)
    have s: "worker_step mo w =
               Some (handle mo (w\<lparr>lg := (lg w)\<lparr>logCh := (logCh (lg w))\<lparr>buf := ms\<rparr>\<rparr>\<rparr>) m0)"
      using assms(2) st(4) b by (rule worker_step_recv)
    have g: "Log lv text (w\<lparr>lg := (lg w)\<lparr>logCh := (logCh (lg w))\<lparr>buf := ms\<rparr>\<rparr>\<rparr>) =
                    Returns (w\<lparr>lg := (lg w)\<lparr>logCh := (logCh (lg w))
                                    \<lparr>buf := ms @ [\<lparr> level = lv, msg = text \<rparr>]\<rparr>\<rparr>\<rparr>)"
      using st l by (simp add: Log_def chan_send_def)
    show ?thesis using b l r s g by blast
  qed
  show ?thesis using st lg full by (simp add: methods_Log)
qed

text \<open>
  A hundred Debug messages fill the queue of a new logger; the next call blocks, and
  goes through once the worker has taken a message off the queue.
\<close>

theorem enqueue_backpressure_witness:
  "map_option (\<lambda>w. length (buf (logCh (lg w))))
     (exec table_order (replicate 100 (DoDebug ''x'')) (New ''app'' Green [])) = Some 100 \<and>
   map_option (Log LevelInfo ''y'')
     (exec table_order (replicate 100 (DoDebug ''x'')) (New ''app'' Green [])) = Some Blocks \<and>
   exec table_order (replicate 100 (DoDebug ''x'') @ [DoInfo ''y'']) (New ''app'' Green []) = None \<and>
   map_option (\<lambda>w. length (buf (logCh (lg w))))
     (exec table_order (replicate 100 (DoDebug ''x'') @ [Work, DoInfo ''y'']) (New ''app'' Green []))
     = Some 100 \<and>
   (\<exists>w m0 ms. exec table_order (replicate 100 (DoDebug ''x'')) (New ''app'' Green []) = Some w \<and>
       chan_recv (logCh (lg w)) = Received m0 ((logCh (lg w))\<lparr>buf := ms\<rparr>) \<and> length ms = 99 \<and>
       worker_step table_order w =
         Some (handle table_order (w\<lparr>lg := (lg w)\<lparr>logCh := (logCh (lg w))\<lparr>buf := ms\<rparr>\<rparr>\<rparr>) m0) \<and>
       Log LevelInfo ''y'' (w\<lparr>lg := (lg w)\<lparr>logCh := (logCh (lg w))\<lparr>buf := ms\<rparr>\<rparr>\<rparr>) =
         Returns (w\<lparr>lg := (lg w)\<lparr>logCh := (logCh (lg w))
                        \<lparr>buf := ms @ [\<lparr> level = LevelInfo, msg = ''y'' \<rparr>]\<rparr>\<rparr>\<rparr>))"
proof -
  let ?e = "exec table_order (replicate 100 (DoDebug ''x'')) (New ''app'' Green [])"
  have ne: "?e \<noteq> None" by code_simp
  then obtain w where e: "?e = Some w" by auto
  have "map_option proc ?e = Some Alive" by code_simp
  then have p: "proc w = Alive" unfolding e by simp
  have "map_option (\<lambda>w. closed (lg w)) ?e = Some False" by code_simp
  then have nc: "\<not> closed (lg w)" unfolding e by simp
  have "map_option (\<lambda>w. length (buf (logCh (lg w)))) ?e = Some 100" by code_simp
  then have len: "length (buf (logCh (lg w))) = 100" unfolding e by simp
  note t = enqueue_backpressure [OF e p nc, of LevelInfo "''y''"]
  have b: "Log LevelInfo ''y'' w = Blocks" using t len by simp
  have i: "Info ''y'' w = Blocks" using t b by simp
  have x: "exec table_order (replicate 100 (DoDebug ''x'') @ [DoInfo ''y'']) (New ''app'' Green []) = None"
    unfolding exec_append e using p i by (simp add: act_def finish_def)
  have y: "map_option (\<lambda>w. length (buf (logCh (lg w))))
     (exec table_order (replicate 100 (DoDebug ''x'') @ [Work, DoInfo ''y'']) (New ''app'' Green []))
     = Some 100"
    by code_simp
  have f: "\<exists>m0 ms. buf (logCh (lg w)) = m0 # ms \<and> length ms = 99 \<and>
                  chan_recv (logCh (lg w)) = Received m0 ((logCh (lg w))\<lparr>buf := ms\<rparr>) \<and>
                  worker_step table_order w =
                    Some (handle table_order (w\<lparr>lg := (lg w)\<lparr>logCh := (logCh (lg w))\<lparr>buf := ms\<rparr>\<rparr>\<rparr>) m0) \<and>
                  Log LevelInfo ''y'' (w\<lparr>lg := (lg w)\<lparr>logCh := (logCh (lg w))\<lparr>buf := ms\<rparr>\<rparr>\<rparr>) =
                    Returns (w\<lparr>lg := (lg w)\<lparr>logCh := (logCh (lg w))
                                    \<lparr>buf := ms @ [\<lparr> level = LevelInfo, msg = ''y'' \<rparr>]\<rparr>\<rparr>\<rparr>)"
    using t len by blast
  then obtain m0 ms where
    f1: "chan_recv (logCh (lg w)) = Received m0 ((logCh (lg w))\<lparr>buf := ms\<rparr>)" and
    f2: "length ms = 99" and
    f3: "worker_step table_order w =
           Some (handle table_order (w\<lparr>lg := (lg w)\<lparr>logCh := (logCh (lg w))\<lparr>buf := ms\<rparr>\<rparr>\<rparr>) m0)" and
    f4: "Log LevelInfo ''y'' (w\<lparr>lg := (lg w)\<lparr>logCh := (logCh (lg w))\<lparr>buf := ms\<rparr>\<rparr>\<rparr>) =
           Returns (w\<lparr>lg := (lg w)\<lparr>logCh := (logCh (lg w))
                          \<lparr>buf := ms @ [\<lparr> level = LevelInfo, msg = ''y'' \<rparr>]\<rparr>\<rparr>\<rparr>)"
    by blast
  have z: "\<exists>w m0 ms. ?e = Some w \<and>
       chan_recv (logCh (lg w)) = Received m0 ((logCh (lg w))\<lparr>buf := ms\<rparr>) \<and> length ms = 99 \<and>
       worker_step table_order w =
         Some (handle table_order (w\<lparr>lg := (lg w)\<lparr>logCh := (logCh (lg w))\<lparr>buf := ms\<rparr>\<rparr>\<rparr>) m0) \<and>
       Log LevelInfo ''y'' (w\<lparr>lg := (lg w)\<lparr>logCh := (logCh (lg w))\<lparr>buf := ms\<rparr>\<rparr>\<rparr>) =
         Returns (w\<lparr>lg := (lg w)\<lparr>logCh := (logCh (lg w))
                        \<lparr>buf := ms @ [\<lparr> level = LevelInfo, msg = ''y'' \<rparr>]\<rparr>\<rparr>\<rparr>)"
    by (rule exI [of _ w], rule exI [of _ m0], rule exI [of _ ms]) (intro conjI e f1 f2 f3 f4)
  have c1: "map_option (\<lambda>w. length (buf (logCh (lg w)))) ?e = Some 100" unfolding e using len by simp
  have c2: "map_option (Log LevelInfo ''y'') ?e = Some Blocks" unfolding e using b by simp
  show ?thesis by (intro conjI c1 c2 x y z)
qed

text \<open>
  After \<^verbatim>\<open>Close\<close> has returned the channel is closed, and an enqueue is a send on a
  closed channel: the caller panics.
\<close>

theorem enqueue_after_close_panics:
  "map_option proc (exec table_order [DoClose, DoInfo ''late''] (New ''app'' Green [])) = Some Panicked"
  by code_simp

subsection \<open>Order\<close>

text \<open>
  The messages a history enqueues, in the order of the calls; a history of a producer
  is made of enqueues and turns of the worker. \<open>fifo_state\<close> is what holds during such
  a history once the worker has taken \<open>k\<close> messages off the queue.
\<close>

fun enqueued :: "action list \<Rightarrow> logMessage list" where
  "enqueued [] = []"
| "enqueued (a # as) = (case enqueues a of Some m \<Rightarrow> m # enqueued as | None \<Rightarrow> enqueued as)"

definition producing :: "action list \<Rightarrow> bool" where
  "producing as \<longleftrightarrow> list_all (\<lambda>a. a = Work \<or> enqueues a \<noteq> None) as"

definition fifo_state ::
  "(nat \<Rightarrow> (string \<times> Color) list) \<Rightarrow> world \<Rightarrow> logMessage list \<Rightarrow> world \<Rightarrow> nat \<Rightarrow> bool" where
  "fifo_state mo w0 queue w k \<longleftrightarrow>
     k \<le> length queue \<and>
     sink w = sink w0 @ lines mo (l (lg w0)) (nranges w0)
                (filter (passes (maxLogLevel (lg w0))) (reached (maxLogLevel (lg w0)) (take k queue))) \<and>
     l (lg w) = l (lg w0) \<and> maxLogLevel (lg w) = maxLogLevel (lg w0) \<and> \<not> closed (lg w) \<and>
     (proc w = Alive \<longrightarrow>
        buf (logCh (lg w)) = drop k queue \<and>
        \<not> fatal_in (maxLogLevel (lg w0)) (take k queue) \<and>
        nranges w = nranges w0 + prints (filter (passes (maxLogLevel (lg w0))) (take k queue)) \<and>
        sound w)"

lemma logMessage_eta [simp]: "\<lparr> level = level m, msg = msg m \<rparr> = (m :: logMessage)"
  by (cases m) simp

lemma enqueued_append: "enqueued (as @ bs) = enqueued as @ enqueued bs"
  by (induction as) (auto split: option.splits)

lemma producing_append: "producing (as @ bs) \<longleftrightarrow> producing as \<and> producing bs"
  by (simp add: producing_def)

lemma fifo_enqueue:
  assumes inv: "fifo_state mo w0 queue w1 k" and e: "enqueues a = Some m"
    and a: "act mo a w1 = Some w"
  shows "fifo_state mo w0 (queue @ [m]) w k"
proof -
  have al: "proc w1 = Alive" using a by (rule act_alive)
  have s1: "sound w1" and nc: "\<not> closed (lg w1)" and k: "k \<le> length queue"
    using inv al by (simp_all add: fifo_state_def)
  have op: "\<not> chan_closed (logCh (lg w1))" "cap (logCh (lg w1)) = 100"
    using s1 nc by (simp_all add: sound_def)
  have room: "length (buf (logCh (lg w1))) < 100"
    using a e al op by (auto simp: act_enqueue finish_def Log_def chan_send_def split: if_splits)
  have w: "w = w1\<lparr>lg := (lg w1)\<lparr>logCh := (logCh (lg w1))\<lparr>buf := buf (logCh (lg w1)) @ [m]\<rparr>\<rparr>\<rparr>"
    using a e al op room by (simp add: act_enqueue finish_def Log_def chan_send_def)
  have snd: "sound w" using s1 nc room by (simp add: w sound_def)
  show ?thesis
    using inv al k snd by (simp add: fifo_state_def w)
qed

lemma fifo_work:
  assumes inv: "fifo_state mo w0 queue w1 k" and a: "worker_step mo w1 = Some w"
  shows "fifo_state mo w0 queue w (Suc k)"
proof -
  define thr where "thr = maxLogLevel (lg w0)"
  have al: "proc w1 = Alive" using a by (auto simp: worker_step_def split: if_splits)
  have s1: "sound w1" and nc: "\<not> closed (lg w1)" and k: "k \<le> length queue"
    and b1: "buf (logCh (lg w1)) = drop k queue"
    and nf: "\<not> fatal_in thr (take k queue)"
    and nr: "nranges w1 = nranges w0 + prints (filter (passes thr) (take k queue))"
    and sk: "sink w1 = sink w0 @ lines mo (l (lg w0)) (nranges w0)
                (filter (passes thr) (reached thr (take k queue)))"
    and cfg: "l (lg w1) = l (lg w0)" "maxLogLevel (lg w1) = thr"
    using inv al by (simp_all add: fifo_state_def thr_def)
  have op: "\<not> chan_closed (logCh (lg w1))" "worker w1 = Active"
    using s1 nc by (simp_all add: sound_def)
  obtain m rest where d: "drop k queue = m # rest"
    using a al op b1 by (cases "drop k queue") (auto simp: worker_step_def chan_recv_def)
  have kl: "k < length queue" using d by (cases "k < length queue") auto
  have m: "queue ! k = m" and rest: "rest = drop (Suc k) queue"
    using d kl by (simp_all add: Cons_nth_drop_Suc [symmetric])
  have tk: "take (Suc k) queue = take k queue @ [m]"
    using kl m by (simp add: take_Suc_conv_app_nth)
  define w2 where "w2 = w1\<lparr>lg := (lg w1)\<lparr>logCh := (logCh (lg w1))\<lparr>buf := rest\<rparr>\<rparr>\<rparr>"
  have w: "w = handle mo w2 m"
    using a worker_step_recv [OF al op(2), of m rest mo] b1 d by (simp add: w2_def)
  have rk: "reached thr (take k queue) = take k queue" using nf by (rule reached_no_fatal)
  have rs: "reached thr (take (Suc k) queue) = take (Suc k) queue"
    unfolding tk using nf by (simp add: reached_append)
  have s2: "sound w2" using s1 nc b1 d by (auto simp: w2_def sound_def)
  show ?thesis
  proof (cases "passes thr m")
    case False
    then have "w = w2" using cfg by (simp add: w handle_below passes_def w2_def)
    then show ?thesis
      using False k kl sk rk rs nr nf cfg nc s2 al rest
      by (simp add: fifo_state_def w2_def tk fatal_in_def flip: thr_def)
  next
    case True
    then have p: "\<not> level m < maxLogLevel (lg w2)" using cfg by (simp add: passes_def w2_def)
    have sw: "sink w = sink w1 @ [Output (l (lg w0)) (formatted (mo (nranges w1)) m)]"
      using handle_sink [OF p, of mo] cfg by (simp add: w w2_def)
    have ln: "lines mo (l (lg w0)) (nranges w0) (filter (passes thr) (take (Suc k) queue))
            = lines mo (l (lg w0)) (nranges w0) (filter (passes thr) (take k queue))
                @ [Output (l (lg w0)) (formatted (mo (nranges w1)) m)]"
      using True by (simp add: tk lines_append nr)
    have pw: "proc w = (if level m = LevelFatal then Exited 1 else Alive)"
      using p al by (simp add: w handle_proc w2_def)
    have nw: "nranges w = nranges w0 + prints (filter (passes thr) (take (Suc k) queue))"
      using p True nr by (simp add: w handle_nranges w2_def tk prints_def)
    have sd: "sound w" using s2 by (simp add: w sound_def)
    have bw: "buf (logCh (lg w)) = drop (Suc k) queue" by (simp add: w w2_def rest)
    have fw: "proc w = Alive \<Longrightarrow> \<not> fatal_in thr (take (Suc k) queue)"
      using pw nf by (auto simp: tk fatal_in_def split: if_splits)
    have cw: "l (lg w) = l (lg w0)" "maxLogLevel (lg w) = thr" "\<not> closed (lg w)"
      using cfg nc by (simp_all add: w w2_def)
    show ?thesis
      unfolding fifo_state_def thr_def [symmetric]
      using kl sw sk rk rs ln nw sd bw fw cw by simp
  qed
qed

lemma fifo_exec:
  assumes "sound w0" and "proc w0 = Alive" and "\<not> closed (lg w0)"
  shows "producing as \<Longrightarrow> exec mo as w0 = Some w \<Longrightarrow>
         \<exists>k. fifo_state mo w0 (buf (logCh (lg w0)) @ enqueued as) w k"
proof (induction as arbitrary: w rule: rev_induct)
  case Nil
  then have "fifo_state mo w0 (buf (logCh (lg w0)) @ enqueued []) w 0"
    using assms by (simp add: fifo_state_def fatal_in_def prints_def)
  then show ?case by blast
next
  case (snoc a bs)
  from snoc.prems(2) obtain w1 where b: "exec mo bs w0 = Some w1" and a: "act mo a w1 = Some w"
    by (auto simp: exec_append split: option.splits)
  have pb: "producing bs" and pa: "a = Work \<or> enqueues a \<noteq> None"
    using snoc.prems(1) by (simp_all add: producing_append producing_def)
  from snoc.IH [OF pb b] obtain k
    where inv: "fifo_state mo w0 (buf (logCh (lg w0)) @ enqueued bs) w1 k" by blast
  show ?case
  proof (cases "enqueues a")
    case None
    then have w: "a = Work" using pa by simp
    then have "worker_step mo w1 = Some w" using a by (simp add: act_def)
    with inv have "fifo_state mo w0 (buf (logCh (lg w0)) @ enqueued bs) w (Suc k)"
      by (rule fifo_work)
    then show ?thesis using w by (auto simp: enqueued_append)
  next
    case (Some m)
    with inv have "fifo_state mo w0 ((buf (logCh (lg w0)) @ enqueued bs) @ [m]) w k"
      using a by (rule fifo_enqueue)
    then show ?thesis using Some by (auto simp: enqueued_append)
  qed
qed

text \<open>
  C4. Let a live logger with an empty queue, not closed, be given (after any history
  since \<^verbatim>\<open>New\<close>), and let a producer enqueue any number of messages while the worker
  takes its turns in between, in any interleaving that can happen. At every moment the
  lines written since are those of the messages the worker has consumed so far, a
  prefix of the messages sent, one line for each message that passes the filter and in
  the order of the sends, whatever the levels; what is still queued is the rest of the
  messages sent, in order. Only a Fatal message that passes the filter cuts this short:
  it is the last one consumed. When \<^verbatim>\<open>Close\<close> then returns, the lines written are those
  of all the messages sent that pass the filter, in the order of the sends.
\<close>

theorem fifo_order:
  assumes "exec mo before (New n c ws) = Some w0"
    and "proc w0 = Alive" and "\<not> closed (lg w0)" and "buf (logCh (lg w0)) = []"
    and "producing as" and "exec mo as w0 = Some w"
  shows "(\<exists>k\<le>length (enqueued as).
            sink w = sink w0 @ lines mo (l (lg w0)) (nranges w0)
                       (filter (passes (maxLogLevel (lg w0)))
                          (reached (maxLogLevel (lg w0)) (take k (enqueued as)))) \<and>
            (proc w = Alive \<longrightarrow> buf (logCh (lg w)) = drop k (enqueued as))) \<and>
         (\<forall>w'. proc w = Alive \<and> Close mo w = Returns w' \<longrightarrow>
            sink w' = sink w0 @ lines mo (l (lg w0)) (nranges w0)
                        (filter (passes (maxLogLevel (lg w0))) (enqueued as)))"
proof -
  define thr where "thr = maxLogLevel (lg w0)"
  have s0: "sound w0" using assms(1,2) by (rule sound_reachable)
  from fifo_exec [OF s0 assms(2,3,5,6)] assms(4)
  obtain k where inv: "fifo_state mo w0 (enqueued as) w k" by auto
  have k: "k \<le> length (enqueued as)"
    and sk: "sink w = sink w0 @ lines mo (l (lg w0)) (nranges w0)
                       (filter (passes thr) (reached thr (take k (enqueued as))))"
    and cfg: "l (lg w) = l (lg w0)" "maxLogLevel (lg w) = thr" "\<not> closed (lg w)"
    using inv by (simp_all add: fifo_state_def thr_def)
  have alive: "buf (logCh (lg w)) = drop k (enqueued as)" "\<not> fatal_in thr (take k (enqueued as))"
    "nranges w = nranges w0 + prints (filter (passes thr) (take k (enqueued as)))" "sound w"
    if "proc w = Alive"
    using inv that by (simp_all add: fifo_state_def thr_def)
  have part1: "\<exists>k\<le>length (enqueued as).
            sink w = sink w0 @ lines mo (l (lg w0)) (nranges w0)
                       (filter (passes thr) (reached thr (take k (enqueued as)))) \<and>
            (proc w = Alive \<longrightarrow> buf (logCh (lg w)) = drop k (enqueued as))"
    using k sk alive(1) by blast
  have part2: "sink w' = sink w0 @ lines mo (l (lg w0)) (nranges w0) (filter (passes thr) (enqueued as))"
    if al: "proc w = Alive" and cl: "Close mo w = Returns w'" for w'
  proof -
    note a = alive [OF al]
    have nf: "\<not> fatal_in thr (buf (logCh (lg w)))"
      using Close_open [OF a(4) al cfg(3), of mo] cl cfg(2) by (auto simp: Let_def split: if_splits)
    have "sink w' = sink w @ lines mo (l (lg w)) (nranges w) (filter (passes thr) (buf (logCh (lg w))))"
      using Close_open [OF a(4) al cfg(3), of mo] cl nf cfg(2)
      by (auto simp: Let_def after_run_def reached_no_fatal)
    also have "\<dots> = sink w0 @ lines mo (l (lg w0)) (nranges w0)
                         (filter (passes thr) (take k (enqueued as) @ drop k (enqueued as)))"
      unfolding filter_append lines_append
      using sk a cfg by (simp add: reached_no_fatal)
    finally show ?thesis by simp
  qed
  show ?thesis using part1 part2 unfolding thr_def by blast
qed

text \<open>
  Five messages of five levels, the worker running in between: the four that pass the
  threshold Info are written in the order they were sent.
\<close>

theorem fifo_order_witness:
  "map_option (map w_text \<circ> sink)
     (exec table_order
        [DoInfo ''one'', DoDebug ''two'', Work, DoError ''three'', DoPrint ''four'', Work, DoWarn ''five'',
         DoClose]
        (New ''app'' Green []))
     = Some [Blue @ ''[INFO]'' @ Reset @ '' one'' @ [CHR 0x0A],
             Red @ ''[ERROR]'' @ Reset @ '' three'' @ [CHR 0x0A],
             Reset @ ''four'' @ [CHR 0x0A],
             Yellow @ ''[WARN]'' @ Reset @ '' five'' @ [CHR 0x0A]]"
proof -
  let ?as = "[DoInfo ''one'', DoDebug ''two'', Work, DoError ''three'', DoPrint ''four'', Work, DoWarn ''five'']"
  let ?w0 = "New ''app'' Green []"
  have e0: "exec table_order [] (New ''app'' Green []) = Some ?w0" by simp
  have "exec table_order ?as ?w0 \<noteq> None" by code_simp
  then obtain w where e: "exec table_order ?as ?w0 = Some w" by auto
  have "map_option proc (exec table_order ?as ?w0) = Some Alive" by code_simp
  then have p: "proc w = Alive" unfolding e by simp
  have pr: "producing ?as" unfolding producing_def by code_simp
  have sw: "sound w" using e p by (rule sound_reachable)
  have "map_option (\<lambda>w. closed (lg w)) (exec table_order ?as ?w0) = Some False" by code_simp
  then have nc: "\<not> closed (lg w)" unfolding e by simp
  have "map_option (\<lambda>w. fatal_in (maxLogLevel (lg w)) (buf (logCh (lg w))))
          (exec table_order ?as ?w0) = Some False" by code_simp
  then have nf: "\<not> fatal_in (maxLogLevel (lg w)) (buf (logCh (lg w)))" unfolding e by simp
  obtain w' where c: "Close table_order w = Returns w'"
    using Close_open [OF sw p nc, of table_order] nf by (auto simp: Let_def)
  have s: "sink w' = sink ?w0 @ lines table_order (l (lg ?w0)) (nranges ?w0)
                        (filter (passes (maxLogLevel (lg ?w0))) (enqueued ?as))"
    using fifo_order [OF e0 _ _ _ pr e] p c by (simp add: New_simps make_chan_def)
  have "map w_text (sink ?w0 @ lines table_order (l (lg ?w0)) (nranges ?w0)
                        (filter (passes (maxLogLevel (lg ?w0))) (enqueued ?as)))
        = [Blue @ ''[INFO]'' @ Reset @ '' one'' @ [CHR 0x0A],
             Red @ ''[ERROR]'' @ Reset @ '' three'' @ [CHR 0x0A],
             Reset @ ''four'' @ [CHR 0x0A],
             Yellow @ ''[WARN]'' @ Reset @ '' five'' @ [CHR 0x0A]]"
    by code_simp
  then have t: "map w_text (sink w') = [Blue @ ''[INFO]'' @ Reset @ '' one'' @ [CHR 0x0A],
             Red @ ''[ERROR]'' @ Reset @ '' three'' @ [CHR 0x0A],
             Reset @ ''four'' @ [CHR 0x0A],
             Yellow @ ''[WARN]'' @ Reset @ '' five'' @ [CHR 0x0A]]"
    unfolding s .
  have "exec table_order (?as @ [DoClose]) ?w0 = Some w'"
    unfolding exec_append e using p c by (simp add: act_def finish_def)
  then show ?thesis using t by (simp del: exec.simps)
qed

subsection \<open>Configuration and plain texts\<close>

text \<open>
  \<^verbatim>\<open>SetLevel\<close> replaces the threshold and changes nothing else; the worker filters
  the next message it handles by the new threshold.
\<close>

theorem SetLevel_threshold:
  "maxLogLevel (lg (SetLevel lv w)) = lv \<and>
   SetLevel lv w = w\<lparr>lg := (lg w)\<lparr>maxLogLevel := lv\<rparr>\<rparr> \<and>
   (level m < lv \<longrightarrow> handle mo (SetLevel lv w) m = SetLevel lv w) \<and>
   (\<not> level m < lv \<longrightarrow>
      sink (handle mo (SetLevel lv w) m) = sink w @ [Output (l (lg w)) (formatted (mo (nranges w)) m)])"
proof -
  have f: "maxLogLevel (lg (SetLevel lv w)) = lv" "sink (SetLevel lv w) = sink w"
    "l (lg (SetLevel lv w)) = l (lg w)" "nranges (SetLevel lv w) = nranges w"
    by (simp_all add: SetLevel_def)
  have d: "SetLevel lv w = w\<lparr>lg := (lg w)\<lparr>maxLogLevel := lv\<rparr>\<rparr>"
    by (simp add: SetLevel_def)
  have b: "level m < lv \<longrightarrow> handle mo (SetLevel lv w) m = SetLevel lv w"
    using f(1) by (simp add: handle_below)
  have p: "\<not> level m < lv \<longrightarrow>
      sink (handle mo (SetLevel lv w) m) = sink w @ [Output (l (lg w)) (formatted (mo (nranges w)) m)]"
    using f by (simp add: handle_sink)
  show ?thesis using f(1) d b p by blast
qed

text \<open>Raised to Warn, the logger drops an Info message; lowered to Debug, it writes a Debug message.\<close>

theorem SetLevel_threshold_witness:
  "sink (handle table_order (SetLevel LevelWarn (New ''app'' Green [])) \<lparr> level = LevelInfo, msg = ''a'' \<rparr>) = [] \<and>
   map w_text (sink (handle table_order (SetLevel LevelDebug (New ''app'' Green []))
                       \<lparr> level = LevelDebug, msg = ''d'' \<rparr>))
     = [Grey @ ''[DEBUG]'' @ Reset @ '' d'' @ [CHR 0x0A]]"
proof -
  note a = SetLevel_threshold [of LevelWarn "New ''app'' Green []" "\<lparr> level = LevelInfo, msg = ''a'' \<rparr>" table_order]
  note b = SetLevel_threshold [of LevelDebug "New ''app'' Green []" "\<lparr> level = LevelDebug, msg = ''d'' \<rparr>" table_order]
  have 1: "sink (handle table_order (SetLevel LevelWarn (New ''app'' Green [])) \<lparr> level = LevelInfo, msg = ''a'' \<rparr>) = []"
    using a [THEN conjunct2, THEN conjunct2, THEN conjunct1]
    by (simp add: level_defs SetLevel_def New_simps)
  have 2: "sink (handle table_order (SetLevel LevelDebug (New ''app'' Green [])) \<lparr> level = LevelDebug, msg = ''d'' \<rparr>)
         = sink (New ''app'' Green []) @ [Output (l (lg (New ''app'' Green [])))
              (formatted (table_order (nranges (New ''app'' Green []))) \<lparr> level = LevelDebug, msg = ''d'' \<rparr>)]"
    using b [THEN conjunct2, THEN conjunct2, THEN conjunct2] by (simp add: level_defs)
  show ?thesis
    unfolding 2 using 1
    by (simp add: New_simps formatted_def level_defs Output_def Printf0_plain color_defs)
qed

text \<open>
  \<^verbatim>\<open>SetPrintTime\<close> stores the flag and leaves the threshold, the queue and the sink
  as they are; a line written afterwards is stamped exactly when the flag is on, goes
  to the same writers, and has the prefix of the module set again when the flag is on.
\<close>

theorem SetPrintTime_stamp:
  "printTime (lg (SetPrintTime p w)) = p \<and>
   maxLogLevel (lg (SetPrintTime p w)) = maxLogLevel (lg w) \<and>
   logCh (lg (SetPrintTime p w)) = logCh (lg w) \<and>
   sink (SetPrintTime p w) = sink w \<and>
   (\<not> level m < maxLogLevel (lg w) \<longrightarrow>
      (\<exists>e. sink (handle mo (SetPrintTime p w) m) = sink w @ [e] \<and> w_stamp e = p \<and>
           w_to e = l_out (l (lg w)) \<and>
           w_prefix e = (if p then color (lg w) @ ''['' @ module (lg w) @ '']'' @ Grey @ '' ''
                         else l_prefix (l (lg w)))))"
proof -
  have f: "printTime (lg (SetPrintTime p w)) = p"
    "maxLogLevel (lg (SetPrintTime p w)) = maxLogLevel (lg w)"
    "logCh (lg (SetPrintTime p w)) = logCh (lg w)"
    "sink (SetPrintTime p w) = sink w"
    "nranges (SetPrintTime p w) = nranges w"
    by (simp_all add: SetPrintTime_def Let_def)
  have o: "w_stamp (Output (l (lg (SetPrintTime p w))) s) = p"
    "w_to (Output (l (lg (SetPrintTime p w))) s) = l_out (l (lg w))"
    "w_prefix (Output (l (lg (SetPrintTime p w))) s) =
       (if p then color (lg w) @ ''['' @ module (lg w) @ '']'' @ Grey @ '' '' else l_prefix (l (lg w)))"
    for s
    by (simp_all add: SetPrintTime_def Let_def Output_def LstdFlags_def)
  show ?thesis using f o by (simp add: handle_sink)
qed

text \<open>Stamps off, then on again.\<close>

theorem SetPrintTime_stamp_witness:
  "map w_stamp (sink (handle table_order (SetPrintTime False (New ''app'' Green []))
                        \<lparr> level = LevelInfo, msg = ''a'' \<rparr>)) = [False] \<and>
   map w_stamp (sink (handle table_order (SetPrintTime True (SetPrintTime False (New ''app'' Green [])))
                        \<lparr> level = LevelInfo, msg = ''a'' \<rparr>)) = [True]"
proof -
  note a = SetPrintTime_stamp [of False "New ''app'' Green []" "\<lparr> level = LevelInfo, msg = ''a'' \<rparr>" table_order]
  note b = SetPrintTime_stamp [of True "SetPrintTime False (New ''app'' Green [])"
      "\<lparr> level = LevelInfo, msg = ''a'' \<rparr>" table_order]
  have s: "sink (SetPrintTime False (New ''app'' Green [])) = []"
    "maxLogLevel (lg (SetPrintTime False (New ''app'' Green []))) = LevelInfo"
    by (simp_all add: SetPrintTime_def Let_def New_simps)
  have 1: "map w_stamp (sink (handle table_order (SetPrintTime False (New ''app'' Green []))
                        \<lparr> level = LevelInfo, msg = ''a'' \<rparr>)) = [False]"
    using a by (auto simp: New_simps)
  have 2: "map w_stamp (sink (handle table_order (SetPrintTime True (SetPrintTime False (New ''app'' Green [])))
                        \<lparr> level = LevelInfo, msg = ''a'' \<rparr>)) = [True]"
    using b s by auto
  show ?thesis using 1 2 by simp
qed

text \<open>
  For a message whose text has no percent sign and that passes the filter, the line
  written holds, for the five tagged levels, the colour of the level, the tag, the
  reset code, a blank and the text; for Print the reset code and the highlighted
  text; for every other level the reset code and the text.
\<close>

theorem line_without_percent:
  assumes "CHR ''%'' \<notin> set (msg m)" and "\<not> level m < maxLogLevel (lg w)"
  shows "sink (handle mo w m) =
           sink w @ [Output (l (lg w))
             (if level m = LevelInfo then Blue @ ''[INFO]'' @ Reset @ '' '' @ msg m
              else if level m = LevelWarn then Yellow @ ''[WARN]'' @ Reset @ '' '' @ msg m
              else if level m = LevelError then Red @ ''[ERROR]'' @ Reset @ '' '' @ msg m
              else if level m = LevelDebug then Grey @ ''[DEBUG]'' @ Reset @ '' '' @ msg m
              else if level m = LevelFatal then Red @ ''[FATAL]'' @ Reset @ '' '' @ msg m
              else if level m = LevelPrint then Reset @ colorString (mo (nranges w)) (msg m)
              else Reset @ msg m)]"
  using assms by (simp add: handle_sink formatted_plain)

text \<open>An Error message, and a message of the unnamed level 7.\<close>

theorem line_without_percent_witness:
  "CHR ''%'' \<notin> set ''ready'' \<and>
   map w_text (sink (handle table_order (New ''app'' Green []) \<lparr> level = LevelError, msg = ''ready'' \<rparr>))
     = [Red @ ''[ERROR]'' @ Reset @ '' ready'' @ [CHR 0x0A]] \<and>
   map w_text (sink (handle table_order (New ''app'' Green []) \<lparr> level = 7, msg = ''raw'' \<rparr>))
     = [Reset @ ''raw'' @ [CHR 0x0A]]"
proof -
  have h: "CHR ''%'' \<notin> set (msg \<lparr> level = LevelError, msg = ''ready'' \<rparr>)"
    and p: "\<not> level \<lparr> level = LevelError, msg = ''ready'' \<rparr> < maxLogLevel (lg (New ''app'' Green []))"
    by (simp_all add: New_simps level_defs)
  have h': "CHR ''%'' \<notin> set (msg \<lparr> level = 7, msg = ''raw'' \<rparr>)"
    and p': "\<not> level \<lparr> level = 7, msg = ''raw'' \<rparr> < maxLogLevel (lg (New ''app'' Green []))"
    by (simp_all add: New_simps level_defs)
  show ?thesis
    using line_without_percent [OF h p, of table_order] line_without_percent [OF h' p', of table_order]
    by (simp add: New_simps level_defs Output_def color_defs)
qed

end
